theory Spec2Isabelle
  imports Complex_Main "HOL-Library.Log_Nat"
begin

section \<open>Numbers and glyph frames\<close>

text \<open>
  The JavaScript numbers of the font atlas are pixel quantities, modelled as integers:
  an integer stands for the double of that value, and the sums, products and comparisons
  of \<^verbatim>\<open>buildMapping\<close> are exact on integers in doubles (below \<open>2^53\<close>). The logarithm
  of \<^verbatim>\<open>nextPowOfTwo\<close> is not an integer: it is rounded to a double, and the rounding is
  part of the model. Where the result of \<^verbatim>\<open>nextPowOfTwo\<close> is not a finite number
  (\<^verbatim>\<open>NaN\<close> or \<^verbatim>\<open>Infinity\<close>) it is the value \<open>None\<close>.

  A character is one element of \<^verbatim>\<open>Array.from(string)\<close>, modelled as one \<open>char\<close>.
\<close>

text \<open>
  An entry of the character mapping table, \<^verbatim>\<open>{x, y, width, height, mask}\<close>. The layout
  functions read it at any numeric type, the atlas builder writes it with integers.
\<close>

record 'n frame =
  frame_x :: 'n
  frame_y :: 'n
  frame_width :: 'n
  frame_height :: 'n
  frame_mask :: bool

text \<open>
  The mapping table is a JavaScript object keyed by character. It is kept as an
  association list in the order of the object's own enumeration, a new key being appended;
  \<open>map_of\<close> is the property read \<^verbatim>\<open>mapping[char]\<close>, \<open>None\<close> standing for
  \<^verbatim>\<open>undefined\<close>.
\<close>

type_synonym 'n char_mapping = "(char \<times> 'n frame) list"

section \<open>The font atlas: \<^verbatim>\<open>text-layer/utils.js\<close>\<close>

subsection \<open>\<^verbatim>\<open>nextPowOfTwo\<close>\<close>

text \<open>
  Rounding to the nearest integer, a tie going to the even one: the rounding of the
  significand of a double.
\<close>

definition roundEven :: "real \<Rightarrow> int" where
  "roundEven x =
     (let f = \<lfloor>x\<rfloor>; r = x - of_int f
      in if r < 1 / 2 then f
         else if 1 / 2 < r then f + 1
         else if even f then f else f + 1)"

text \<open>
  The double nearest to a real number (IEEE 754 binary64, round to nearest, ties to even):
  53 significant bits at the exponent of the number, the exponent no less than that of the
  subnormal numbers. The overflow to \<^verbatim>\<open>Infinity\<close> is not modelled: the numbers rounded here
  are logarithms.
\<close>

definition toDouble :: "real \<Rightarrow> real" where
  "toDouble x =
     (if x = 0 then 0
      else let e = max \<lfloor>log 2 \<bar>x\<bar>\<rfloor> (- 1022);
               ulp = 2 powr (of_int e - 52)
           in of_int (roundEven (x / ulp)) * ulp)"

text \<open>
  \<^verbatim>\<open>Math.log2\<close> of a positive number: the double nearest to the logarithm. (ECMAScript
  leaves the accuracy of \<^verbatim>\<open>Math.log2\<close> to the implementation; the nearest double is the
  best an implementation can return.)
\<close>

definition Math_log2 :: "int \<Rightarrow> real" where
  "Math_log2 number = toDouble (log 2 (of_int number))"

text \<open>
  \<^verbatim>\<open>Math.pow(2, Math.ceil(Math.log2(number)))\<close>. \<^verbatim>\<open>Math.log2\<close> of a negative number is
  \<^verbatim>\<open>NaN\<close>, and so is the result. \<^verbatim>\<open>Math.log2(0)\<close> is \<^verbatim>\<open>-Infinity\<close>, its ceiling is
  \<^verbatim>\<open>-Infinity\<close> and \<^verbatim>\<open>Math.pow(2, -Infinity)\<close> is \<open>0\<close>. For a number of at least 1 the
  logarithm and its double are not negative, \<^verbatim>\<open>Math.ceil\<close> is exact, and \<^verbatim>\<open>Math.pow\<close> of
  2 and an integer exponent below 1024 is the exact power of two; from 1024 on it is
  \<^verbatim>\<open>Infinity\<close>.
\<close>

definition nextPowOfTwo :: "int \<Rightarrow> int option" where
  "nextPowOfTwo number =
     (if number < 0 then None
      else if number = 0 then Some 0
      else let exponent = \<lceil>Math_log2 number\<rceil>
           in if exponent < 1024 then Some (2 ^ nat exponent) else None)"

text \<open>A power of two: \<open>1, 2, 4, ...\<close>, decided by halving.\<close>

function isPowOfTwo :: "int \<Rightarrow> bool" where
  "isPowOfTwo n = (if n \<le> 0 then False else if n = 1 then True
                   else if n mod 2 = 0 then isPowOfTwo (n div 2) else False)"
  by pat_completeness auto
termination
  by (relation "measure nat") auto

declare isPowOfTwo.simps [simp del]

subsection \<open>\<^verbatim>\<open>buildMapping\<close>\<close>

text \<open>The variables the \<^verbatim>\<open>forEach\<close> callback of \<^verbatim>\<open>buildMapping\<close> closes over.\<close>

record pack_state =
  ps_mapping :: "int char_mapping"
  ps_x :: int
  ps_row :: int

text \<open>
  The body of the callback, for the character \<open>char\<close> at index \<open>i\<close>:
  a character whose entry is already there is skipped; otherwise it is measured, the
  row is wrapped when it does not fit, and the entry is stored.
\<close>

definition placeChar ::
  "(char \<Rightarrow> nat \<Rightarrow> int) \<Rightarrow> int \<Rightarrow> int \<Rightarrow> int \<Rightarrow> int \<Rightarrow> pack_state \<Rightarrow> char \<Rightarrow> nat \<Rightarrow> pack_state"
where
  "placeChar getFontWidth fontHeight buffer maxCanvasWidth yOffset s char i =
     (case map_of (ps_mapping s) char of
        Some _ \<Rightarrow> s
      | None \<Rightarrow>
          let width = getFontWidth char i;
              wrap = (ps_x s + width + buffer * 2 > maxCanvasWidth);
              x = (if wrap then 0 else ps_x s);
              row = (if wrap then ps_row s + 1 else ps_row s)
          in \<lparr>ps_mapping = ps_mapping s @
                 [(char, \<lparr>frame_x = x + buffer,
                          frame_y = yOffset + row * (fontHeight + buffer * 2) + buffer,
                          frame_width = width,
                          frame_height = fontHeight,
                          frame_mask = True\<rparr>)],
              ps_x = x + (width + buffer * 2),
              ps_row = row\<rparr>)"

text \<open>\<^verbatim>\<open>Array.prototype.forEach\<close>: the callback on every element with its index, in order.\<close>

fun forEachChar :: "('s \<Rightarrow> char \<Rightarrow> nat \<Rightarrow> 's) \<Rightarrow> char list \<Rightarrow> nat \<Rightarrow> 's \<Rightarrow> 's" where
  "forEachChar f [] i s = s"
| "forEachChar f (c # cs) i s = forEachChar f cs (Suc i) (f s c i)"

text \<open>The object \<^verbatim>\<open>buildMapping\<close> returns.\<close>

record atlas =
  mapping :: "int char_mapping"
  xOffset :: int
  yOffset :: int
  canvasHeight :: "int option"


definition buildMapping ::
  "char list \<Rightarrow> (char \<Rightarrow> nat \<Rightarrow> int) \<Rightarrow> int \<Rightarrow> int \<Rightarrow> int \<Rightarrow>
   int char_mapping option \<Rightarrow> int option \<Rightarrow> int option \<Rightarrow> atlas"
where
  "buildMapping characterSet getFontWidth fontHeight buffer maxCanvasWidth mapping0 xOffset0 yOffset0 =
     (let yOff = (case yOffset0 of None \<Rightarrow> 0 | Some v \<Rightarrow> v);
          s = forEachChar
                (placeChar getFontWidth fontHeight buffer maxCanvasWidth yOff)
                characterSet 0
                \<lparr>ps_mapping = (case mapping0 of None \<Rightarrow> [] | Some m \<Rightarrow> m),
                 ps_x = (case xOffset0 of None \<Rightarrow> 0 | Some v \<Rightarrow> v),
                 ps_row = 0\<rparr>;
          rowHeight = fontHeight + buffer * 2
      in \<lparr>mapping = ps_mapping s,
          xOffset = ps_x s,
          yOffset = yOff + ps_row s * rowHeight,
          canvasHeight = nextPowOfTwo (yOff + (ps_row s + 1) * rowHeight)\<rparr>)"

subsection \<open>\<^verbatim>\<open>transformRow\<close>\<close>

text \<open>
  The layout functions only add, multiply and compare numbers, so they are modelled at any
  ordered ring \<open>'n\<close> (integers, rationals, reals), again with exact arithmetic.
\<close>

datatype error = TypeError

text \<open>What the code reads of a \<^verbatim>\<open>getBoundingClientRect()\<close>.\<close>

record 'n rect =
  rect_top :: 'n
  rect_left :: 'n
  rect_width :: 'n
  rect_bottom :: 'n

text \<open>
  \<^verbatim>\<open>autoWrapping\<close> builds a \<^verbatim>\<open>div\<close> of one \<^verbatim>\<open>span\<close> per character in the browser's
  document, and \<^verbatim>\<open>transformRow\<close> reads the bounding rectangle of its \<open>i\<close>-th child. The
  browser's layout is not part of the program: it is a parameter, a function of the
  arguments of \<^verbatim>\<open>autoWrapping\<close> that gives the rectangle of every child.
\<close>

type_synonym 'n autoWrapping =
  "string \<Rightarrow> 'n char_mapping \<Rightarrow> 'n \<Rightarrow> 'n \<Rightarrow> string option \<Rightarrow> 'n \<Rightarrow> string \<Rightarrow> string \<Rightarrow> string option
   \<Rightarrow> nat \<Rightarrow> 'n rect"

text \<open>
  \<^verbatim>\<open>wordBreak\<close> is a CSS keyword or \<^verbatim>\<open>undefined\<close>; as a condition it holds for a
  non-empty string.
\<close>

definition truthy :: "string option \<Rightarrow> bool" where
  "truthy wordBreak = (case wordBreak of None \<Rightarrow> False | Some w \<Rightarrow> w \<noteq> [])"

text \<open>
  The size arrays \<^verbatim>\<open>[width, height]\<close> are shared between the records and written after
  the records were emitted, so they live in a store: a list of pairs, an address being an
  index, allocation appending.
\<close>

type_synonym addr = nat
type_synonym 'n store = "('n \<times> 'n) list"

text \<open>A character record; \<open>None\<close> is a property not set so far.\<close>

record 'n datum =
  datum_text :: char
  datum_offsetTop :: 'n
  datum_offsetLeft :: 'n
  datum_size :: "addr option"
  datum_rowSize :: "addr option"

definition MISSING_CHAR_WIDTH :: "'n::linordered_idom" where
  "MISSING_CHAR_WIDTH = 32"

text \<open>The variables the \<^verbatim>\<open>map\<close> callback of \<^verbatim>\<open>transformRow\<close> closes over, and the log.\<close>

record 'n row_state =
  rs_offsetLeft :: 'n
  rs_rowHeight :: 'n
  rs_warnings :: "string list"

text \<open>
  The body of the callback for the character at index \<open>i\<close> of \<open>n\<close>. \<open>textDiv\<close> is
  \<open>Some\<close> of the measured children in word-break mode and \<open>None\<close> otherwise.
  \<^verbatim>\<open>!rowHeight\<close> holds for the number \<open>0\<close>.
\<close>

definition rowChar ::
  "'n::linordered_idom char_mapping \<Rightarrow> 'n \<Rightarrow> (nat \<Rightarrow> 'n rect) option \<Rightarrow> nat \<Rightarrow>
   'n row_state \<Rightarrow> char \<Rightarrow> nat \<Rightarrow> 'n datum \<times> 'n row_state"
where
  "rowChar iconMapping lineHeight textDiv n s character i =
     (case textDiv of
        Some childNodes \<Rightarrow>
          let rect = childNodes i;
              datum = \<lparr>datum_text = character, datum_offsetTop = rect_top rect,
                       datum_offsetLeft = rect_left rect, datum_size = None, datum_rowSize = None\<rparr>;
              s1 = (case map_of iconMapping character of
                      Some frame \<Rightarrow> s\<lparr>rs_offsetLeft := rs_offsetLeft s + rect_width rect\<rparr>
                    | None \<Rightarrow> s\<lparr>rs_warnings := rs_warnings s @ [''Missing character: '' @ [character]],
                               rs_offsetLeft := rs_offsetLeft s + MISSING_CHAR_WIDTH\<rparr>);
              s2 = (if Suc i = n then s1\<lparr>rs_rowHeight := rect_bottom rect\<rparr> else s1)
          in (datum, s2)
      | None \<Rightarrow>
          let datum = \<lparr>datum_text = character, datum_offsetTop = 0,
                       datum_offsetLeft = rs_offsetLeft s, datum_size = None, datum_rowSize = None\<rparr>
          in (case map_of iconMapping character of
                Some frame \<Rightarrow>
                  let s1 = s\<lparr>rs_offsetLeft := rs_offsetLeft s + frame_width frame\<rparr>
                  in (datum, if rs_rowHeight s1 = 0
                             then s1\<lparr>rs_rowHeight := frame_height frame * lineHeight\<rparr> else s1)
              | None \<Rightarrow>
                  (datum, s\<lparr>rs_warnings := rs_warnings s @ [''Missing character: '' @ [character]],
                            rs_offsetLeft := rs_offsetLeft s + MISSING_CHAR_WIDTH\<rparr>)))"

text \<open>\<^verbatim>\<open>Array.prototype.map\<close> with the index, threading the closed-over variables.\<close>

fun mapChars :: "('s \<Rightarrow> char \<Rightarrow> nat \<Rightarrow> 'd \<times> 's) \<Rightarrow> char list \<Rightarrow> nat \<Rightarrow> 's \<Rightarrow> 'd list \<times> 's" where
  "mapChars f [] i s = ([], s)"
| "mapChars f (c # cs) i s =
     (case f s c i of (d, s1) \<Rightarrow> (case mapChars f cs (Suc i) s1 of (ds, s2) \<Rightarrow> (d # ds, s2)))"

text \<open>The object \<^verbatim>\<open>transformRow\<close> returns, with the warnings it logged.\<close>

record 'n row_result =
  characters :: "'n datum list"
  rowWidth :: 'n
  rowHeight :: 'n
  warnings :: "string list"

text \<open>\<^verbatim>\<open>transformRow\<close> from the line \<^verbatim>\<open>let offsetLeft = 0\<close> on.\<close>

definition layoutRow ::
  "string \<Rightarrow> 'n::linordered_idom char_mapping \<Rightarrow> 'n \<Rightarrow> 'n \<Rightarrow> (nat \<Rightarrow> 'n rect) option \<Rightarrow> 'n row_result"
where
  "layoutRow row iconMapping width lineHeight textDiv =
     (case mapChars (rowChar iconMapping lineHeight textDiv (length row)) row 0
             \<lparr>rs_offsetLeft = 0, rs_rowHeight = 0, rs_warnings = []\<rparr> of
        (ds, s) \<Rightarrow>
          \<lparr>characters = ds,
           rowWidth = (case textDiv of Some _ \<Rightarrow> width | None \<Rightarrow> rs_offsetLeft s),
           rowHeight = rs_rowHeight s,
           warnings = rs_warnings s\<rparr>)"

text \<open>
  In word-break mode \<^verbatim>\<open>Object.values(iconMapping)[0].height\<close> is read first: on an empty
  mapping \<^verbatim>\<open>Object.values(iconMapping)[0]\<close> is \<^verbatim>\<open>undefined\<close> and the read throws a
  \<^verbatim>\<open>TypeError\<close>.
\<close>

definition transformRow ::
  "'n::linordered_idom autoWrapping \<Rightarrow> string \<Rightarrow> 'n char_mapping \<Rightarrow> 'n \<Rightarrow> 'n \<Rightarrow> string option \<Rightarrow>
   'n \<Rightarrow> string \<Rightarrow> string \<Rightarrow> string option \<Rightarrow> error + 'n row_result"
where
  "transformRow autoWrapping row iconMapping width lineHeight wordBreak fontSize fontFamily fontWeight textAlign =
     (if truthy wordBreak then
        (case iconMapping of
           [] \<Rightarrow> Inl TypeError
         | (key, first) # _ \<Rightarrow>
             let height = frame_height first * lineHeight;
                 textDiv = autoWrapping row iconMapping height width wordBreak
                             fontSize fontFamily fontWeight textAlign
             in Inr (layoutRow row iconMapping width lineHeight (Some textDiv)))
      else Inr (layoutRow row iconMapping width lineHeight None))"

subsection \<open>\<^verbatim>\<open>transformParagraph\<close>\<close>

text \<open>\<^verbatim>\<open>paragraph.split('\n')\<close>: the pieces between the line feeds, at least one piece.\<close>

fun splitLines :: "string \<Rightarrow> string list" where
  "splitLines [] = [[]]"
| "splitLines (c # cs) =
     (if c = CHR 0x0A then [] # splitLines cs
      else (case splitLines cs of [] \<Rightarrow> [[c]] | r # rs \<Rightarrow> (c # r) # rs))"

text \<open>
  What \<^verbatim>\<open>transformParagraph\<close> changes: the store, the output array
  \<^verbatim>\<open>transformedData\<close>, its variable \<^verbatim>\<open>offsetTop\<close>, and the log.
\<close>

record ('n, 'r) para_state =
  pa_store :: "'n store"
  pa_transformedData :: "'r list"
  pa_offsetTop :: 'n
  pa_warnings :: "string list"

text \<open>The inner \<^verbatim>\<open>characters.forEach\<close> callback: complete the record and push its image.\<close>

definition pushDatum ::
  "('n::linordered_idom datum \<Rightarrow> 'r) \<Rightarrow> 'n \<Rightarrow> addr \<Rightarrow> addr \<Rightarrow> 'r list \<Rightarrow> 'n datum \<Rightarrow> 'r list"
where
  "pushDatum transformCharacter offsetTop sizeRef rowSizeRef transformedData datum =
     transformedData @
       [transformCharacter
          (datum\<lparr>datum_offsetTop := datum_offsetTop datum + offsetTop,
                 datum_size := Some sizeRef,
                 datum_rowSize := (case datum_rowSize datum of Some a \<Rightarrow> Some a | None \<Rightarrow> Some rowSizeRef)\<rparr>)]"

text \<open>
  The \<^verbatim>\<open>rows.forEach\<close> callback, \<open>sizeRef\<close> being the address of the paragraph's size
  array. An exception of \<^verbatim>\<open>transformRow\<close> leaves the function.
\<close>

definition paragraphRow ::
  "'n::linordered_idom autoWrapping \<Rightarrow> 'n char_mapping \<Rightarrow> ('n datum \<Rightarrow> 'r) \<Rightarrow> 'n \<Rightarrow> string option \<Rightarrow>
   'n \<Rightarrow> string \<Rightarrow> string \<Rightarrow> 'n \<Rightarrow> string option \<Rightarrow> addr \<Rightarrow>
   ('n, 'r) para_state \<Rightarrow> string \<Rightarrow> error + ('n, 'r) para_state"
where
  "paragraphRow autoWrapping iconMapping transformCharacter lineHeight wordBreak
       fontSize fontFamily fontWeight width textAlign sizeRef s row =
     (case transformRow autoWrapping row iconMapping width lineHeight wordBreak
             fontSize fontFamily fontWeight textAlign of
        Inl e \<Rightarrow> Inl e
      | Inr r \<Rightarrow>
          let rowSizeRef = length (pa_store s);
              store1 = pa_store s @ [(rowWidth r, rowHeight r)];
              data1 = foldl (pushDatum transformCharacter (pa_offsetTop s) sizeRef rowSizeRef)
                        (pa_transformedData s) (characters r);
              offsetTop1 = pa_offsetTop s + rowHeight r;
              store2 = store1[sizeRef := (max (fst (store1 ! sizeRef)) (rowWidth r), snd (store1 ! sizeRef))]
          in Inr \<lparr>pa_store = store2, pa_transformedData = data1, pa_offsetTop = offsetTop1,
                  pa_warnings = pa_warnings s @ warnings r\<rparr>)"

fun forEachRow :: "('s \<Rightarrow> string \<Rightarrow> error + 's) \<Rightarrow> string list \<Rightarrow> 's \<Rightarrow> error + 's" where
  "forEachRow f [] s = Inr s"
| "forEachRow f (r # rs) s = (case f s r of Inl e \<Rightarrow> Inl e | Inr s1 \<Rightarrow> forEachRow f rs s1)"

text \<open>
  \<^verbatim>\<open>transformParagraph(props, transformedData)\<close> on a store. It returns nothing; its
  result here is what it leaves behind.
\<close>

definition transformParagraph ::
  "'n::linordered_idom autoWrapping \<Rightarrow> string \<Rightarrow> 'n char_mapping \<Rightarrow> ('n datum \<Rightarrow> 'r) \<Rightarrow> 'n \<Rightarrow>
   string option \<Rightarrow> 'n \<Rightarrow> string \<Rightarrow> string \<Rightarrow> 'n \<Rightarrow> string option \<Rightarrow>
   'r list \<Rightarrow> 'n store \<Rightarrow> error + ('n, 'r) para_state"
where
  "transformParagraph autoWrapping paragraph iconMapping transformCharacter lineHeight wordBreak
       fontSize fontFamily fontWeight width textAlign transformedData store =
     (let rows = splitLines paragraph;
          sizeRef = length store;
          store0 = store @ [(0, 0)]
      in case forEachRow
                (paragraphRow autoWrapping iconMapping transformCharacter lineHeight wordBreak
                   fontSize fontFamily fontWeight width textAlign sizeRef)
                rows
                \<lparr>pa_store = store0, pa_transformedData = transformedData, pa_offsetTop = 0,
                 pa_warnings = []\<rparr> of
           Inl e \<Rightarrow> Inl e
         | Inr s \<Rightarrow>
             Inr (s\<lparr>pa_store := (pa_store s)[sizeRef := (fst (pa_store s ! sizeRef), pa_offsetTop s)]\<rparr>))"

text \<open>Reading \<^verbatim>\<open>datum.size\<close> in a store.\<close>

definition sizeOf :: "'n store \<Rightarrow> 'n datum \<Rightarrow> ('n \<times> 'n) option" where
  "sizeOf store datum =
     (case datum_size datum of
        None \<Rightarrow> None
      | Some a \<Rightarrow> if a < length store then Some (store ! a) else None)"

section \<open>The path tessellator\<close>

text \<open>
  \<^verbatim>\<open>path-layer.js\<close> imports \<^verbatim>\<open>./path-tesselator\<close>, whose source is not part of this
  development. The definitions of this section follow the specification's description
  of it (sections 3, 4.1 and 9); the definitions of the next section are the path layer's
  own code.

  Coordinates are only moved, never computed with, so they are values of any type with a
  zero, the zero being the fill of a missing third component.
\<close>

text \<open>
  Modelled from the spec: the points of \<^verbatim>\<open>path-tesselator.js\<close>. A point has 2 or 3 numeric
  components.
\<close>

datatype 'a point = Point2 'a 'a | Point3 'a 'a 'a

text \<open>Modelled from the spec: the position format, 3 components unless 2 are configured.\<close>

datatype positionFormat = XY | XYZ

text \<open>
  Modelled from the spec: step 1 of the algorithm of \<^verbatim>\<open>path-tesselator.js\<close>. A point is
  coerced to the fixed width by ignoring or zero-filling the missing component; the
  buffers hold 3 numbers for every position.
\<close>

fun normalizePoint :: "positionFormat option \<Rightarrow> 'a::zero point \<Rightarrow> 'a list" where
  "normalizePoint fmt (Point2 px py) = [px, py, 0]"
| "normalizePoint fmt (Point3 px py pz) = (if fmt = Some XY then [px, py, 0] else [px, py, pz])"

text \<open>
  Modelled from the spec: the state of the \<^verbatim>\<open>PathTesselator\<close> of \<^verbatim>\<open>path-tesselator.js\<close>:
  the three instance streams, the buffer layout and the instance count.
\<close>

record 'a tesselator =
  startPositions :: "'a list"
  endPositions :: "'a list"
  segmentTypes :: "nat list"
  bufferLayout :: "nat list"
  instanceCount :: nat

text \<open>
  Modelled from the spec: the segment type of \<^verbatim>\<open>path-tesselator.js\<close> (step 4 and the data
  model): 3 for the one segment of a path of two points, which is both first and last,
  1 for a first segment, 2 for a last one, 0 for an interior one. The last segment of
  \<open>pointCount\<close> points has index \<open>pointCount - 2\<close>.
\<close>

definition segmentType :: "nat \<Rightarrow> nat \<Rightarrow> nat" where
  "segmentType pointCount i =
     (if pointCount = 2 then 3
      else if i = 0 then 1
      else if i = pointCount - 2 then 2
      else 0)"

text \<open>
  Modelled from the spec: step 3 of the algorithm of \<^verbatim>\<open>path-tesselator.js\<close>, the start of
  the segment \<open>i\<close> of the normalized points: \<open>start = [prev, points[i]]\<close>, where
  \<open>prev\<close> is \<open>points[i-1]\<close> if \<open>i > 0\<close> and \<open>points[i]\<close> otherwise.
\<close>

definition segmentStart :: "'a list list \<Rightarrow> nat \<Rightarrow> 'a list" where
  "segmentStart points i =
     (let prev = (if 0 < i then points ! (i - 1) else points ! i)
      in prev @ points ! i)"

text \<open>
  Modelled from the spec: step 3 of the algorithm of \<^verbatim>\<open>path-tesselator.js\<close>, the end of the
  segment \<open>i\<close>: \<open>end = [points[i+1], next]\<close>, where \<open>next\<close> is \<open>points[i+2]\<close> if
  it exists and \<open>points[i+1]\<close> otherwise.
\<close>

definition segmentEnd :: "'a list list \<Rightarrow> nat \<Rightarrow> 'a list" where
  "segmentEnd points i =
     (let next = (if i + 2 < length points then points ! (i + 2) else points ! (i + 1))
      in points ! (i + 1) @ next)"

text \<open>
  Modelled from the spec: steps 3 and 4 of the algorithm of \<^verbatim>\<open>path-tesselator.js\<close>,
  emitting the segment \<open>i\<close>: it is appended to the three streams and counted.
\<close>

definition emitSegment :: "'a list list \<Rightarrow> nat \<Rightarrow> 'a tesselator \<Rightarrow> 'a tesselator" where
  "emitSegment points i t =
     t\<lparr>startPositions := startPositions t @ segmentStart points i,
       endPositions := endPositions t @ segmentEnd points i,
       segmentTypes := segmentTypes t @ [segmentType (length points) i],
       instanceCount := instanceCount t + 1\<rparr>"

text \<open>
  Modelled from the spec: the loop of step 3 of \<^verbatim>\<open>path-tesselator.js\<close>, over the segment
  indices from \<open>i\<close> to \<open>pointCount - 2\<close>.
\<close>

function tesselateFrom :: "'a list list \<Rightarrow> nat \<Rightarrow> 'a tesselator \<Rightarrow> 'a tesselator" where
  "tesselateFrom points i t =
     (if i + 1 < length points then tesselateFrom points (i + 1) (emitSegment points i t) else t)"
  by pat_completeness auto
termination
  by (relation "measure (\<lambda>(points, i, t). length points - i)") auto

declare tesselateFrom.simps [simp del]

text \<open>
  Modelled from the spec: steps 1, 2 and 5 of the algorithm of \<^verbatim>\<open>path-tesselator.js\<close>, for
  one record: a path of fewer than 2 points gets the layout entry 0 and is skipped; any
  other path is tessellated, and its layout entry is the number of segments emitted.
\<close>

definition tesselateRecord ::
  "('r \<Rightarrow> 'a::zero point list) \<Rightarrow> positionFormat option \<Rightarrow> 'a tesselator \<Rightarrow> 'r \<Rightarrow> 'a tesselator"
where
  "tesselateRecord getGeometry fmt t object =
     (let points = map (normalizePoint fmt) (getGeometry object)
      in if length points < 2 then t\<lparr>bufferLayout := bufferLayout t @ [0]\<rparr>
         else let t1 = tesselateFrom points 0 t
              in t1\<lparr>bufferLayout := bufferLayout t1 @ [instanceCount t1 - instanceCount t]\<rparr>)"

text \<open>
  Modelled from the spec: \<^verbatim>\<open>updateGeometry\<close> of \<^verbatim>\<open>path-tesselator.js\<close>. The records are
  walked in input order. With \<open>dataChanged\<close> the buffers are rebuilt from empty ones;
  without it the tessellator may reuse segments, and need not: this model always
  rebuilds, as section 9 of the specification allows.
\<close>

definition updateGeometry ::
  "'a::zero tesselator \<Rightarrow> 'r list \<Rightarrow> ('r \<Rightarrow> 'a point list) \<Rightarrow> positionFormat option \<Rightarrow> bool \<Rightarrow> 'a tesselator"
where
  "updateGeometry t data getGeometry fmt dataChanged =
     foldl (tesselateRecord getGeometry fmt)
       \<lparr>startPositions = [], endPositions = [], segmentTypes = [], bufferLayout = [], instanceCount = 0\<rparr>
       data"

text \<open>
  Modelled from the spec: a flat buffer of \<^verbatim>\<open>path-tesselator.js\<close>, of positions or of
  segment types.
\<close>

datatype 'a buffer = PositionBuffer "'a list" | TypeBuffer "nat list"

text \<open>
  Modelled from the spec: \<^verbatim>\<open>get(attributeName)\<close> of \<^verbatim>\<open>path-tesselator.js\<close>, the current
  buffer of one of the three streams.
\<close>

definition get :: "'a tesselator \<Rightarrow> string \<Rightarrow> 'a buffer option" where
  "get t attributeName =
     (if attributeName = ''startPositions'' then Some (PositionBuffer (startPositions t))
      else if attributeName = ''endPositions'' then Some (PositionBuffer (endPositions t))
      else if attributeName = ''segmentTypes'' then Some (TypeBuffer (segmentTypes t))
      else None)"

section \<open>The path layer: \<^verbatim>\<open>path-layer/path-layer.js\<close>\<close>

text \<open>The properties of the layer that \<^verbatim>\<open>updateState\<close> reads.\<close>

record ('r, 'a) props =
  props_data :: "'r list"
  props_getPath :: "'r \<Rightarrow> 'a point list"
  props_positionFormat :: "positionFormat option"

text \<open>
  \<^verbatim>\<open>changeFlags\<close>: \<^verbatim>\<open>updateTriggersChanged\<close> is \<^verbatim>\<open>false\<close> (\<open>None\<close>) or an object with
  the flags of the triggers that changed.
\<close>

record triggers =
  trigger_all :: bool
  trigger_getPath :: bool

record changeFlags =
  dataChanged :: bool
  updateTriggersChanged :: "triggers option"
  extensionsChanged :: bool

text \<open>
  The state of a layer: \<^verbatim>\<open>this.state\<close> with the tessellator, the two values
  \<^verbatim>\<open>setState\<close> stores (\<open>None\<close> before the first geometry update) and the model, here the
  number of models made so far; and whether the attribute manager holds all attributes
  invalidated.
\<close>

record 'a layer =
  pathTesselator :: "'a tesselator"
  numInstances :: "nat option"
  layer_bufferLayout :: "nat list option"
  model :: nat
  invalidated :: bool

text \<open>
  \<^verbatim>\<open>Layer.updateState\<close> of \<^verbatim>\<open>@deck.gl/core\<close>, as the comment in \<^verbatim>\<open>updateState\<close> states
  it: the base class only invalidates all attributes on a data change.
\<close>

definition super_updateState :: "changeFlags \<Rightarrow> 'a layer \<Rightarrow> 'a layer" where
  "super_updateState flags l = (if dataChanged flags then l\<lparr>invalidated := True\<rparr> else l)"

definition geometryChanged :: "changeFlags \<Rightarrow> bool" where
  "geometryChanged flags =
     (dataChanged flags \<or>
      (case updateTriggersChanged flags of
         None \<Rightarrow> False
       | Some u \<Rightarrow> trigger_all u \<or> trigger_getPath u))"

definition updateState :: "('r, 'a::zero) props \<Rightarrow> ('r, 'a) props \<Rightarrow> changeFlags \<Rightarrow> 'a layer \<Rightarrow> 'a layer" where
  "updateState oldProps props flags l =
     (let l0 = super_updateState flags l;
          l1 = (if geometryChanged flags then
                  let t = updateGeometry (pathTesselator l0) (props_data props) (props_getPath props)
                            (props_positionFormat props) (dataChanged flags);
                      l' = l0\<lparr>pathTesselator := t,
                              numInstances := Some (instanceCount t),
                              layer_bufferLayout := Some (bufferLayout t)\<rparr>
                  in if \<not> dataChanged flags then l'\<lparr>invalidated := True\<rparr> else l'
                else l0)
      in if extensionsChanged flags then l1\<lparr>model := model l1 + 1, invalidated := True\<rparr> else l1)"

text \<open>An attribute as the three update callbacks write it.\<close>

record 'a attribute =
  attribute_bufferLayout :: "nat list option"
  attribute_value :: "'a buffer option"

definition calculateStartPositions :: "'a layer \<Rightarrow> 'a attribute \<Rightarrow> 'a attribute" where
  "calculateStartPositions l attribute =
     attribute\<lparr>attribute_bufferLayout := Some (bufferLayout (pathTesselator l)),
               attribute_value := get (pathTesselator l) ''startPositions''\<rparr>"

definition calculateEndPositions :: "'a layer \<Rightarrow> 'a attribute \<Rightarrow> 'a attribute" where
  "calculateEndPositions l attribute =
     attribute\<lparr>attribute_bufferLayout := Some (bufferLayout (pathTesselator l)),
               attribute_value := get (pathTesselator l) ''endPositions''\<rparr>"

definition calculateSegmentTypes :: "'a layer \<Rightarrow> 'a attribute \<Rightarrow> 'a attribute" where
  "calculateSegmentTypes l attribute =
     attribute\<lparr>attribute_bufferLayout := Some (bufferLayout (pathTesselator l)),
               attribute_value := get (pathTesselator l) ''segmentTypes''\<rparr>"

section \<open>Notions for the statements\<close>

text \<open>The start positions, end positions and segment types that one record contributes.\<close>

definition recordStarts :: "('r \<Rightarrow> 'a::zero point list) \<Rightarrow> positionFormat option \<Rightarrow> 'r \<Rightarrow> 'a list" where
  "recordStarts getGeometry fmt object =
     concat (map (segmentStart (map (normalizePoint fmt) (getGeometry object)))
               [0..<length (getGeometry object) - 1])"

definition recordEnds :: "('r \<Rightarrow> 'a::zero point list) \<Rightarrow> positionFormat option \<Rightarrow> 'r \<Rightarrow> 'a list" where
  "recordEnds getGeometry fmt object =
     concat (map (segmentEnd (map (normalizePoint fmt) (getGeometry object)))
               [0..<length (getGeometry object) - 1])"

definition pathTypes :: "nat \<Rightarrow> nat list" where
  "pathTypes n = map (segmentType n) [0..<n - 1]"

text \<open>
  The children that \<^verbatim>\<open>transformRow\<close> measures for a row, when it does not throw: those of
  \<^verbatim>\<open>autoWrapping\<close> in word-break mode, none otherwise.
\<close>

definition measured ::
  "'n::linordered_idom autoWrapping \<Rightarrow> string \<Rightarrow> 'n char_mapping \<Rightarrow> 'n \<Rightarrow> 'n \<Rightarrow> string option \<Rightarrow>
   'n \<Rightarrow> string \<Rightarrow> string \<Rightarrow> string option \<Rightarrow> (nat \<Rightarrow> 'n rect) option"
where
  "measured autoWrapping row iconMapping width lineHeight wordBreak fontSize fontFamily fontWeight textAlign =
     (if truthy wordBreak then
        (case iconMapping of
           [] \<Rightarrow> None
         | (key, first) # _ \<Rightarrow>
             Some (autoWrapping row iconMapping (frame_height first * lineHeight) width wordBreak
                     fontSize fontFamily fontWeight textAlign))
      else None)"

text \<open>The width by which a character advances \<^verbatim>\<open>offsetLeft\<close> in fixed-width mode.\<close>

definition advance :: "'n::linordered_idom char_mapping \<Rightarrow> char \<Rightarrow> 'n" where
  "advance iconMapping character =
     (case map_of iconMapping character of
        Some frame \<Rightarrow> frame_width frame
      | None \<Rightarrow> MISSING_CHAR_WIDTH)"

text \<open>
  The records that \<^verbatim>\<open>transformParagraph\<close> pushes for the rows with the results \<open>rs\<close>,
  the first of them starting at \<open>offsetTop\<close> and having its row size at \<open>rowSizeRef\<close>.
\<close>

fun emitRows ::
  "('n::linordered_idom datum \<Rightarrow> 'r) \<Rightarrow> addr \<Rightarrow> 'n \<Rightarrow> addr \<Rightarrow> 'n row_result list \<Rightarrow> 'r list"
where
  "emitRows transformCharacter sizeRef offsetTop rowSizeRef [] = []"
| "emitRows transformCharacter sizeRef offsetTop rowSizeRef (r # rs) =
     map (\<lambda>datum. transformCharacter
            (datum\<lparr>datum_offsetTop := datum_offsetTop datum + offsetTop,
                   datum_size := Some sizeRef,
                   datum_rowSize := (case datum_rowSize datum of Some a \<Rightarrow> Some a | None \<Rightarrow> Some rowSizeRef)\<rparr>))
         (characters r)
     @ emitRows transformCharacter sizeRef (offsetTop + rowHeight r) (Suc rowSizeRef) rs"

section \<open>Properties of the path tessellator and the path layer\<close>

lemma length_normalizePoint: "length (normalizePoint fmt p) = 3"
  by (cases p) auto

lemma tesselateFrom_eq:
  "tesselateFrom points i t =
     t\<lparr>startPositions := startPositions t @ concat (map (segmentStart points) [i..<length points - 1]),
       endPositions := endPositions t @ concat (map (segmentEnd points) [i..<length points - 1]),
       segmentTypes := segmentTypes t @ map (segmentType (length points)) [i..<length points - 1],
       instanceCount := instanceCount t + (length points - 1 - i)\<rparr>"
proof (induction points i t rule: tesselateFrom.induct)
  case (1 points i t)
  show ?case
  proof (cases "i + 1 < length points")
    case True
    then have "i < length points - Suc 0" by simp
    note upt = upt_conv_Cons [OF this]
    have step: "tesselateFrom points i t = tesselateFrom points (i + 1) (emitSegment points i t)"
      using True by (subst tesselateFrom.simps) simp
    show ?thesis
      using True
      by (subst step, subst "1.IH" [OF True]) (auto simp: upt emitSegment_def)
  next
    case False
    then show ?thesis
      by (subst tesselateFrom.simps) simp
  qed
qed

lemma tesselateRecord_eq:
  "tesselateRecord getGeometry fmt t object =
     (let points = map (normalizePoint fmt) (getGeometry object); n = length (getGeometry object)
      in t\<lparr>startPositions := startPositions t @ concat (map (segmentStart points) [0..<n - 1]),
            endPositions := endPositions t @ concat (map (segmentEnd points) [0..<n - 1]),
            segmentTypes := segmentTypes t @ map (segmentType n) [0..<n - 1],
            bufferLayout := bufferLayout t @ [n - 1],
            instanceCount := instanceCount t + (n - 1)\<rparr>)"
  by (cases "length (getGeometry object) < 2")
     (auto simp: tesselateRecord_def tesselateFrom_eq Let_def)

lemma foldl_tesselateRecord:
  "foldl (tesselateRecord getGeometry fmt) t data =
     t\<lparr>startPositions := startPositions t @ concat (map (recordStarts getGeometry fmt) data),
       endPositions := endPositions t @ concat (map (recordEnds getGeometry fmt) data),
       segmentTypes := segmentTypes t @ concat (map (\<lambda>r. pathTypes (length (getGeometry r))) data),
       bufferLayout := bufferLayout t @ map (\<lambda>r. length (getGeometry r) - 1) data,
       instanceCount := instanceCount t + sum_list (map (\<lambda>r. length (getGeometry r) - 1) data)\<rparr>"
proof (induction data arbitrary: t)
  case Nil
  show ?case by simp
next
  case (Cons r data)
  show ?case
    by (simp only: foldl_Cons Cons.IH)
       (simp add: tesselateRecord_eq Let_def recordStarts_def recordEnds_def pathTypes_def)
qed

lemma updateGeometry_eq:
  "updateGeometry t data getGeometry fmt dc =
     \<lparr>startPositions = concat (map (recordStarts getGeometry fmt) data),
      endPositions = concat (map (recordEnds getGeometry fmt) data),
      segmentTypes = concat (map (\<lambda>r. pathTypes (length (getGeometry r))) data),
      bufferLayout = map (\<lambda>r. length (getGeometry r) - 1) data,
      instanceCount = sum_list (map (\<lambda>r. length (getGeometry r) - 1) data)\<rparr>"
  by (simp add: updateGeometry_def foldl_tesselateRecord)

lemma length_segmentStart:
  assumes "\<forall>p \<in> set points. length p = 3" and "i + 1 < length points"
  shows "length (segmentStart points i) = 6"
proof -
  have "points ! i \<in> set points" and "points ! (i - 1) \<in> set points"
    using assms(2) by simp_all
  with assms(1) show ?thesis by (auto simp: segmentStart_def)
qed

lemma length_segmentEnd:
  assumes "\<forall>p \<in> set points. length p = 3" and "i + 1 < length points"
  shows "length (segmentEnd points i) = 6"
proof -
  have "points ! (i + 1) \<in> set points" using assms(2) by simp
  moreover have "i + 2 < length points \<Longrightarrow> points ! (i + 2) \<in> set points" by simp
  ultimately show ?thesis using assms(1) by (auto simp: segmentEnd_def)
qed

lemma length_concat_const:
  assumes "\<And>x. x \<in> set xs \<Longrightarrow> length (f x) = c"
  shows "length (concat (map f xs)) = c * length xs"
  using assms by (induction xs) auto

lemma length_recordStarts: "length (recordStarts g fmt r) = 6 * (length (g r) - 1)"
proof -
  let ?points = "map (normalizePoint fmt) (g r)"
  have "length (concat (map (segmentStart ?points) [0..<length (g r) - 1])) = 6 * length [0..<length (g r) - 1]"
    by (rule length_concat_const) (simp add: length_segmentStart length_normalizePoint)
  then show ?thesis by (simp add: recordStarts_def)
qed

lemma length_recordEnds: "length (recordEnds g fmt r) = 6 * (length (g r) - 1)"
proof -
  let ?points = "map (normalizePoint fmt) (g r)"
  have "length (concat (map (segmentEnd ?points) [0..<length (g r) - 1])) = 6 * length [0..<length (g r) - 1]"
    by (rule length_concat_const) (simp add: length_segmentEnd length_normalizePoint)
  then show ?thesis by (simp add: recordEnds_def)
qed

lemma length_concat_records:
  assumes "\<And>r. length (f r) = c * (length (g r) - 1)"
  shows "length (concat (map f data)) = c * sum_list (map (\<lambda>r. length (g r) - 1) data)"
  by (induction data) (simp_all add: assms distrib_left)

lemma length_pathTypes: "length (pathTypes n) = n - 1"
  by (simp add: pathTypes_def)

lemma concat_slice:
  "k < length xss \<Longrightarrow>
     take (length (xss ! k)) (drop (sum_list (map length (take k xss))) (concat xss)) = xss ! k"
proof (induction xss arbitrary: k)
  case Nil
  then show ?case by simp
next
  case (Cons xs xss)
  show ?case
  proof (cases k)
    case 0
    then show ?thesis by simp
  next
    case (Suc j)
    with Cons.prems have "j < length xss" by simp
    from Cons.IH [OF this] show ?thesis using Suc by simp
  qed
qed

lemma pathTypes_nth: "i < n - 1 \<Longrightarrow> pathTypes n ! i = segmentType n i"
  by (simp add: pathTypes_def)

lemma record_types_slice:
  assumes "k < length data"
  shows "take (bufferLayout (updateGeometry t data g fmt dc) ! k)
           (drop (sum_list (take k (bufferLayout (updateGeometry t data g fmt dc))))
              (segmentTypes (updateGeometry t data g fmt dc)))
         = pathTypes (length (g (data ! k)))"
proof -
  let ?xss = "map (\<lambda>r. pathTypes (length (g r))) data"
  have len: "map length ?xss = map (\<lambda>r. length (g r) - 1) data"
    by (simp add: length_pathTypes)
  have "take (length (?xss ! k)) (drop (sum_list (map length (take k ?xss))) (concat ?xss)) = ?xss ! k"
    by (rule concat_slice) (simp add: assms)
  moreover have "map length (take k ?xss) = take k (map (\<lambda>r. length (g r) - 1) data)"
    by (simp add: take_map length_pathTypes)
  ultimately show ?thesis
    using assms by (simp add: updateGeometry_eq length_pathTypes)
qed

text \<open>
  C1. After every \<^verbatim>\<open>updateGeometry\<close> call, whatever the tessellator held before, the sum
  of \<open>bufferLayout\<close> is \<open>instanceCount\<close>, which is the length of \<open>segmentTypes\<close> and
  a sixth of the lengths of \<open>startPositions\<close> and \<open>endPositions\<close>. When the geometry
  changed, \<^verbatim>\<open>updateState\<close> of the path layer runs \<^verbatim>\<open>updateGeometry\<close> on the layer's
  data and stores exactly the tessellator's \<open>instanceCount\<close> and \<open>bufferLayout\<close> as
  its \<open>numInstances\<close> and \<open>bufferLayout\<close> state; the three attribute callbacks hand out
  the tessellator's \<open>bufferLayout\<close> and streams.
\<close>

theorem tesselator_streams_consistent:
  fixes t :: "'a::zero tesselator" and l :: "'a layer"
  shows
    "(let t' = updateGeometry t data getGeometry fmt dc in
        sum_list (bufferLayout t') = instanceCount t' \<and>
        instanceCount t' = length (segmentTypes t') \<and>
        length (startPositions t') = 6 * instanceCount t' \<and>
        length (endPositions t') = 6 * instanceCount t') \<and>
     (geometryChanged flags \<longrightarrow>
        (let l' = updateState oldProps props flags l in
           pathTesselator l' =
             updateGeometry (pathTesselator l) (props_data props) (props_getPath props)
               (props_positionFormat props) (dataChanged flags) \<and>
           numInstances l' = Some (instanceCount (pathTesselator l')) \<and>
           layer_bufferLayout l' = Some (bufferLayout (pathTesselator l')))) \<and>
     attribute_bufferLayout (calculateStartPositions l a) = Some (bufferLayout (pathTesselator l)) \<and>
     attribute_value (calculateStartPositions l a) = Some (PositionBuffer (startPositions (pathTesselator l))) \<and>
     attribute_bufferLayout (calculateEndPositions l a) = Some (bufferLayout (pathTesselator l)) \<and>
     attribute_value (calculateEndPositions l a) = Some (PositionBuffer (endPositions (pathTesselator l))) \<and>
     attribute_bufferLayout (calculateSegmentTypes l a) = Some (bufferLayout (pathTesselator l)) \<and>
     attribute_value (calculateSegmentTypes l a) = Some (TypeBuffer (segmentTypes (pathTesselator l)))"
proof -
  let ?t = "updateGeometry t data getGeometry fmt dc"
  have types: "length (concat (map (\<lambda>r. pathTypes (length (getGeometry r))) data))
          = 1 * sum_list (map (\<lambda>r. length (getGeometry r) - 1) data)"
    by (rule length_concat_records) (simp add: length_pathTypes)
  have 1: "sum_list (bufferLayout ?t) = instanceCount ?t"
    by (simp add: updateGeometry_eq)
  have 2: "instanceCount ?t = length (segmentTypes ?t)"
    using types by (simp add: updateGeometry_eq)
  have 3: "length (startPositions ?t) = 6 * instanceCount ?t"
    by (simp add: updateGeometry_eq length_concat_records [OF length_recordStarts])
  have 4: "length (endPositions ?t) = 6 * instanceCount ?t"
    by (simp add: updateGeometry_eq length_concat_records [OF length_recordEnds])
  have 5: "geometryChanged flags \<longrightarrow>
        (let l' = updateState oldProps props flags l in
           pathTesselator l' =
             updateGeometry (pathTesselator l) (props_data props) (props_getPath props)
               (props_positionFormat props) (dataChanged flags) \<and>
           numInstances l' = Some (instanceCount (pathTesselator l')) \<and>
           layer_bufferLayout l' = Some (bufferLayout (pathTesselator l')))"
    by (simp add: updateState_def super_updateState_def Let_def)
  have 6: "attribute_bufferLayout (calculateStartPositions l a) = Some (bufferLayout (pathTesselator l))"
      "attribute_value (calculateStartPositions l a) = Some (PositionBuffer (startPositions (pathTesselator l)))"
      "attribute_bufferLayout (calculateEndPositions l a) = Some (bufferLayout (pathTesselator l))"
      "attribute_value (calculateEndPositions l a) = Some (PositionBuffer (endPositions (pathTesselator l)))"
      "attribute_bufferLayout (calculateSegmentTypes l a) = Some (bufferLayout (pathTesselator l))"
      "attribute_value (calculateSegmentTypes l a) = Some (TypeBuffer (segmentTypes (pathTesselator l)))"
    by (simp_all add: calculateStartPositions_def calculateEndPositions_def
          calculateSegmentTypes_def get_def)
  from 1 2 3 4 5 6 show ?thesis by (simp only: Let_def)
qed

theorem tesselator_streams_consistent_witness:
  "geometryChanged \<lparr>dataChanged = False,
      updateTriggersChanged = Some \<lparr>trigger_all = False, trigger_getPath = True\<rparr>,
      extensionsChanged = False\<rparr> \<and>
   (let l' = updateState
               \<lparr>props_data = [], props_getPath = (\<lambda>object. object), props_positionFormat = None\<rparr>
               \<lparr>props_data = [[Point2 0 0, Point2 1 (0::int)], [Point2 0 0, Point2 1 0, Point2 1 1]],
                props_getPath = (\<lambda>object. object), props_positionFormat = None\<rparr>
               \<lparr>dataChanged = False,
                updateTriggersChanged = Some \<lparr>trigger_all = False, trigger_getPath = True\<rparr>,
                extensionsChanged = False\<rparr>
               \<lparr>pathTesselator = \<lparr>startPositions = [], endPositions = [], segmentTypes = [],
                                   bufferLayout = [], instanceCount = 0\<rparr>,
                numInstances = None, layer_bufferLayout = None, model = 0, invalidated = False\<rparr>
    in numInstances l' = Some 3 \<and> layer_bufferLayout l' = Some [1, 2] \<and>
       instanceCount (pathTesselator l') = 3 \<and> bufferLayout (pathTesselator l') = [1, 2])"
proof -
  let ?flags = "\<lparr>dataChanged = False,
      updateTriggersChanged = Some \<lparr>trigger_all = False, trigger_getPath = True\<rparr>,
      extensionsChanged = False\<rparr>"
  let ?old = "\<lparr>props_data = [], props_getPath = (\<lambda>object. object), props_positionFormat = None\<rparr>
                :: (int point list, int) props"
  let ?props = "\<lparr>props_data = [[Point2 0 0, Point2 1 (0::int)], [Point2 0 0, Point2 1 0, Point2 1 1]],
                props_getPath = (\<lambda>object. object), props_positionFormat = None\<rparr>"
  let ?t = "\<lparr>startPositions = [], endPositions = [], segmentTypes = [],
             bufferLayout = [], instanceCount = 0\<rparr> :: int tesselator"
  let ?l = "\<lparr>pathTesselator = ?t,
             numInstances = None, layer_bufferLayout = None, model = 0, invalidated = False\<rparr>"
  have g: "geometryChanged ?flags" by (simp add: geometryChanged_def)
  have u: "updateGeometry ?t (props_data ?props) (props_getPath ?props) (props_positionFormat ?props)
             (dataChanged ?flags)
           = \<lparr>startPositions = [0,0,0,0,0,0, 0,0,0,0,0,0, 0,0,0,1,0,0],
              endPositions = [1,0,0,1,0,0, 1,0,0,1,1,0, 1,1,0,1,1,0],
              segmentTypes = [3, 1, 2], bufferLayout = [1, 2], instanceCount = 3\<rparr>"
    by code_simp
  have "geometryChanged ?flags \<longrightarrow>
        (let l' = updateState ?old ?props ?flags ?l in
           pathTesselator l' =
             updateGeometry (pathTesselator ?l) (props_data ?props) (props_getPath ?props)
               (props_positionFormat ?props) (dataChanged ?flags) \<and>
           numInstances l' = Some (instanceCount (pathTesselator l')) \<and>
           layer_bufferLayout l' = Some (bufferLayout (pathTesselator l')))"
    using tesselator_streams_consistent
      [where flags = ?flags and oldProps = ?old and props = ?props and l = ?l
         and t = ?t and data = "[]::int point list list" and getGeometry = "\<lambda>object. object"
         and fmt = None and dc = True and a = "\<lparr>attribute_bufferLayout = None, attribute_value = None\<rparr>"]
    by blast
  with g u show ?thesis by (simp add: Let_def)
qed

text \<open>
  C2. For the record at any index \<open>k\<close> of the data, with a path of \<open>n\<close> points, and
  the slice \<open>seg\<close> of \<open>segmentTypes\<close> that \<open>bufferLayout\<close> assigns to the record:
  if \<open>n < 2\<close> the layout entry is 0 and the record has no segment; if \<open>n \<ge> 2\<close> the
  layout entry is \<open>n - 1\<close> and so is the number of segments, the one segment of
  \<open>n = 2\<close> has type 3, and for \<open>n > 2\<close> segment 0 has type 1, segment \<open>n - 2\<close> has
  type 2 and every segment between them has type 0.
\<close>

theorem path_segment_count_and_types:
  assumes "k < length data"
  shows "let n = length (getGeometry (data ! k));
             t' = updateGeometry t data getGeometry fmt dc;
             seg = take (bufferLayout t' ! k)
                     (drop (sum_list (take k (bufferLayout t'))) (segmentTypes t'))
         in (n < 2 \<longrightarrow> bufferLayout t' ! k = 0 \<and> seg = []) \<and>
            (2 \<le> n \<longrightarrow> bufferLayout t' ! k = n - 1 \<and> length seg = n - 1 \<and>
               (n = 2 \<longrightarrow> seg = [3]) \<and>
               (2 < n \<longrightarrow> seg ! 0 = 1 \<and> seg ! (n - 2) = 2 \<and>
                  (\<forall>i. 0 < i \<and> i < n - 2 \<longrightarrow> seg ! i = 0)))"
proof -
  define n where "n = length (getGeometry (data ! k))"
  define t' where "t' = updateGeometry t data getGeometry fmt dc"
  define seg where
    "seg = take (bufferLayout t' ! k) (drop (sum_list (take k (bufferLayout t'))) (segmentTypes t'))"
  have seg: "seg = pathTypes n"
    unfolding seg_def t'_def n_def using assms by (rule record_types_slice)
  have bl: "bufferLayout t' ! k = n - 1"
    using assms by (simp add: t'_def n_def updateGeometry_eq)
  have small: "n < 2 \<Longrightarrow> pathTypes n = []"
    by (simp add: pathTypes_def)
  have two: "pathTypes 2 = [3]"
    by (simp add: pathTypes_def segmentType_def)
  have big: "2 < n \<Longrightarrow> pathTypes n ! 0 = 1 \<and> pathTypes n ! (n - 2) = 2 \<and>
               (\<forall>i. 0 < i \<and> i < n - 2 \<longrightarrow> pathTypes n ! i = 0)"
    by (auto simp: pathTypes_nth segmentType_def)
  have "(n < 2 \<longrightarrow> bufferLayout t' ! k = 0 \<and> seg = []) \<and>
            (2 \<le> n \<longrightarrow> bufferLayout t' ! k = n - 1 \<and> length seg = n - 1 \<and>
               (n = 2 \<longrightarrow> seg = [3]) \<and>
               (2 < n \<longrightarrow> seg ! 0 = 1 \<and> seg ! (n - 2) = 2 \<and>
                  (\<forall>i. 0 < i \<and> i < n - 2 \<longrightarrow> seg ! i = 0)))"
    using small two big by (auto simp: seg bl length_pathTypes)
  then show ?thesis
    by (simp only: Let_def n_def t'_def seg_def)
qed

theorem path_segment_count_and_types_witness:
  "(2::nat) < length [[Point2 0 0, Point2 1 (0::int)], [], [Point2 0 0, Point2 1 0, Point2 1 1, Point2 0 1]] \<and>
   (let t' = updateGeometry \<lparr>startPositions = [], endPositions = [], segmentTypes = [], bufferLayout = [], instanceCount = 0\<rparr>
               [[Point2 0 0, Point2 1 (0::int)], [], [Point2 0 0, Point2 1 0, Point2 1 1, Point2 0 1]]
               (\<lambda>path. path) None True
    in bufferLayout t' ! 2 = 3 \<and>
       take (bufferLayout t' ! 2) (drop (sum_list (take 2 (bufferLayout t'))) (segmentTypes t')) = [1, 0, 2])"
  using path_segment_count_and_types [of 2 "[[Point2 0 0, Point2 1 (0::int)], [], [Point2 0 0, Point2 1 0, Point2 1 1, Point2 0 1]]" "\<lambda>path. path"
     "\<lparr>startPositions = [], endPositions = [], segmentTypes = [], bufferLayout = [], instanceCount = 0\<rparr>" None True]
  by (simp add: updateGeometry_eq pathTypes_def segmentType_def upt_rec)

text \<open>
  C3. Tessellating the single path \<open>[(0,0), (1,0), (1,1)]\<close> with 3-component positions
  gives exactly 2 segments: \<open>start0 = [0,0,0, 0,0,0]\<close>, \<open>end0 = [1,0,0, 1,1,0]\<close>,
  \<open>type0 = 1\<close> and \<open>start1 = [0,0,0, 1,0,0]\<close>, \<open>end1 = [1,1,0, 1,1,0]\<close>,
  \<open>type1 = 2\<close>: the previous point of the first segment is its own start and the next
  point of the last segment is its own end. The points are given with 2 components and
  zero-filled, or with the third component 0; the format is the default or \<open>XYZ\<close>.
\<close>

theorem three_point_path:
  fixes t :: "'a::zero_neq_one tesselator"
  assumes "path \<in> {[Point2 0 0, Point2 1 0, Point2 1 1], [Point3 0 0 0, Point3 1 0 0, Point3 1 1 0]}"
      and "fmt \<in> {None, Some XYZ}"
  shows "updateGeometry t [path] (\<lambda>object. object) fmt dc =
           \<lparr>startPositions = [0,0,0, 0,0,0] @ [0,0,0, 1,0,0],
            endPositions = [1,0,0, 1,1,0] @ [1,1,0, 1,1,0],
            segmentTypes = [1, 2],
            bufferLayout = [2],
            instanceCount = 2\<rparr>"
  using assms
  by (elim insertE emptyE;
      simp add: updateGeometry_eq recordStarts_def recordEnds_def pathTypes_def
        segmentStart_def segmentEnd_def segmentType_def upt_rec)

theorem three_point_path_witness:
  "[Point2 0 0, Point2 1 0, Point2 1 (1::int)] \<in>
     {[Point2 0 0, Point2 1 0, Point2 1 1], [Point3 0 0 0, Point3 1 0 0, Point3 1 1 0]} \<and>
   Some XYZ \<in> {None, Some XYZ} \<and>
   updateGeometry
       \<lparr>startPositions = [7], endPositions = [], segmentTypes = [], bufferLayout = [5], instanceCount = 9\<rparr>
       [[Point2 0 0, Point2 1 0, Point2 1 (1::int)]] (\<lambda>object. object) (Some XYZ) False
     = \<lparr>startPositions = [0,0,0, 0,0,0, 0,0,0, 1,0,0],
        endPositions = [1,0,0, 1,1,0, 1,1,0, 1,1,0],
        segmentTypes = [1, 2],
        bufferLayout = [2],
        instanceCount = 2\<rparr>"
proof -
  have p: "[Point2 0 0, Point2 1 0, Point2 1 (1::int)] \<in>
     {[Point2 0 0, Point2 1 0, Point2 1 1], [Point3 0 0 0, Point3 1 0 0, Point3 1 1 0]}"
    by simp
  have f: "Some XYZ \<in> {None, Some XYZ}" by simp
  from three_point_path [OF p f] p f show ?thesis by simp
qed

section \<open>Properties of the font atlas\<close>


lemma placeChar_present:
  "map_of (ps_mapping s) c = Some e \<Longrightarrow> placeChar gfw fh b mw yo s c i = s"
  by (simp add: placeChar_def)

lemma placeChar_keeps:
  "map_of (ps_mapping s) c = Some e \<Longrightarrow>
     map_of (ps_mapping (placeChar gfw fh b mw yo s c' i)) c = Some e"
  by (cases "map_of (ps_mapping s) c'") (simp_all add: placeChar_def Let_def map_add_def)

lemma placeChar_extends:
  "\<exists>new. ps_mapping (placeChar gfw fh b mw yo s c i) = ps_mapping s @ new \<and>
         (\<forall>p \<in> set new. map_of (ps_mapping s) (fst p) = None \<and> fst p = c)"
  by (cases "map_of (ps_mapping s) c") (simp_all add: placeChar_def Let_def)

lemma forEachChar_keeps:
  "map_of (ps_mapping s) c = Some e \<Longrightarrow>
     map_of (ps_mapping (forEachChar (placeChar gfw fh b mw yo) cs i s)) c = Some e"
  by (induction cs arbitrary: i s) (simp_all add: placeChar_keeps)

lemma forEachChar_extends:
  "\<exists>new. ps_mapping (forEachChar (placeChar gfw fh b mw yo) cs i s) = ps_mapping s @ new \<and>
         (\<forall>p \<in> set new. map_of (ps_mapping s) (fst p) = None \<and> fst p \<in> set cs)"
proof (induction cs arbitrary: i s)
  case Nil
  show ?case by simp
next
  case (Cons c cs)
  let ?s1 = "placeChar gfw fh b mw yo s c i"
  obtain new1 where n1: "ps_mapping ?s1 = ps_mapping s @ new1"
      "\<forall>p \<in> set new1. map_of (ps_mapping s) (fst p) = None \<and> fst p = c"
    using placeChar_extends by blast
  obtain new2 where n2:
      "ps_mapping (forEachChar (placeChar gfw fh b mw yo) cs (Suc i) ?s1) = ps_mapping ?s1 @ new2"
      "\<forall>p \<in> set new2. map_of (ps_mapping ?s1) (fst p) = None \<and> fst p \<in> set cs"
    using Cons.IH by blast
  have "\<forall>p \<in> set new2. map_of (ps_mapping s) (fst p) = None"
  proof
    fix p assume "p \<in> set new2"
    with n2(2) have "map_of (ps_mapping ?s1) (fst p) = None" by blast
    then show "map_of (ps_mapping s) (fst p) = None"
      using placeChar_keeps [of s "fst p" _ gfw fh b mw yo c i] by (cases "map_of (ps_mapping s) (fst p)") auto
  qed
  with n1 n2 have
    "ps_mapping (forEachChar (placeChar gfw fh b mw yo) (c # cs) i s) = ps_mapping s @ (new1 @ new2) \<and>
     (\<forall>p \<in> set (new1 @ new2). map_of (ps_mapping s) (fst p) = None \<and> fst p \<in> set (c # cs))"
    by auto
  then show ?case by blast
qed




lemma isPowOfTwo_power: "isPowOfTwo (2 ^ k)"
proof (induction k)
  case 0
  show ?case by (simp add: isPowOfTwo.simps)
next
  case (Suc k)
  have "(1::int) \<le> 2 ^ k" by simp
  then have "(2::int) * 2 ^ k \<noteq> 1" by linarith
  then have "(2::int) ^ Suc k \<noteq> 1" by simp
  then show ?case using Suc by (subst isPowOfTwo.simps) simp
qed

lemma isPowOfTwo_imp_power: "isPowOfTwo n \<Longrightarrow> \<exists>k. n = 2 ^ k"
proof (induction n rule: isPowOfTwo.induct)
  case (1 n)
  show ?case
  proof (cases "n = 1")
    case True
    then have "n = 2 ^ 0" by simp
    then show ?thesis by blast
  next
    case False
    from "1.prems" have pos: "0 < n" and ev: "n mod 2 = 0" and half: "isPowOfTwo (n div 2)"
      using False by (auto simp: isPowOfTwo.simps [of n] split: if_splits)
    from "1.IH" pos False ev half obtain k where "n div 2 = 2 ^ k" by auto
    with ev have "n = 2 ^ Suc k" by auto
    then show ?thesis by blast
  qed
qed

lemma isPowOfTwo_iff: "isPowOfTwo n \<longleftrightarrow> (\<exists>k. n = 2 ^ k)"
  using isPowOfTwo_imp_power isPowOfTwo_power by blast

text \<open>
  The rounding of the logarithm: between two powers of two up to \<open>2^49\<close> the rounded
  logarithm stays strictly above the lower exponent; just above \<open>2^49\<close> it does not.
\<close>

lemma roundEven_of_int: "roundEven (of_int k) = k"
  by (simp add: roundEven_def)

lemma roundEven_gt:
  assumes "of_int k + 1 / 2 < x"
  shows "k < roundEven x"
proof -
  have fl: "k \<le> \<lfloor>x\<rfloor>" using assms by (simp add: le_floor_iff)
  show ?thesis
  proof (cases "k = \<lfloor>x\<rfloor>")
    case True
    then have "1 / 2 < x - of_int \<lfloor>x\<rfloor>" using assms by simp
    then show ?thesis using True by (simp add: roundEven_def Let_def)
  next
    case False
    with fl have "k < \<lfloor>x\<rfloor>" by simp
    then show ?thesis by (auto simp: roundEven_def Let_def)
  qed
qed

lemma roundEven_le:
  assumes "x \<le> of_int K"
  shows "roundEven x \<le> K"
proof (cases "x = of_int K")
  case True
  then show ?thesis by (simp add: roundEven_of_int)
next
  case False
  with assms have "x < of_int K" by simp
  then have "\<lfloor>x\<rfloor> < K" by (simp add: floor_less_iff)
  then show ?thesis by (auto simp: roundEven_def Let_def)
qed

lemma roundEven_eq:
  assumes "of_int k \<le> x" and "x \<le> of_int k + 1 / 2" and "even k"
  shows "roundEven x = k"
proof -
  have "\<lfloor>x\<rfloor> = k" using assms by (simp add: floor_eq_iff)
  then show ?thesis using assms by (auto simp: roundEven_def Let_def)
qed

lemma toDouble_binade:
  assumes "2 ^ e \<le> x" and "x < 2 ^ Suc e" and "e \<le> 52"
  shows "toDouble x = of_int (roundEven (x * 2 ^ (52 - e))) / 2 ^ (52 - e)"
proof -
  have "(0::real) < 2 ^ e" by simp
  then have pos: "0 < x" using assms(1) by linarith
  have "2 powr (real (Suc e)) = (2::real) ^ Suc e" by (rule powr_realpow) simp
  moreover have "2 powr (real e) = (2::real) ^ e" by (rule powr_realpow) simp
  ultimately have "2 powr (of_int (int e)) \<le> x \<and> x < 2 powr (of_int (int e + 1))"
    using assms(1,2) by (simp add: add.commute)
  then have fl: "\<lfloor>log 2 x\<rfloor> = int e"
    using pos by (subst floor_log_eq_powr_iff) simp_all
  have "(2::real) powr (real e - 52) = 2 powr (- real (52 - e))"
    using assms(3) by (simp add: of_nat_diff)
  also have "\<dots> = 1 / 2 ^ (52 - e)"
    by (simp add: powr_minus powr_realpow inverse_eq_divide)
  finally have ulp: "(2::real) powr (real e - 52) = 1 / 2 ^ (52 - e)" .
  show ?thesis
    using pos by (simp add: toDouble_def fl ulp Let_def)
qed

lemma ln2_upper: "ln (2::real) < 7 / 8"
proof -
  have "(23 / 16 :: real) \<le> exp (7 / 16)"
    using exp_ge_add_one_self [of "7 / 16 :: real"] by simp
  then have "(23 / 16 :: real)\<^sup>2 \<le> (exp (7 / 16))\<^sup>2"
    by (intro power_mono) simp_all
  also have "(exp (7 / 16 :: real))\<^sup>2 = exp (7 / 8)"
    using exp_double [of "7 / 16 :: real"] by simp
  finally have "(2::real) < exp (7 / 8)" by (simp add: power2_eq_square)
  then have "exp (ln 2) < exp (7 / 8 :: real)" by simp
  then show ?thesis by (simp only: exp_less_cancel_iff)
qed

lemma ln2_lower: "1 / 2 \<le> ln (2::real)"
proof -
  have "norm (exp (1 / 2 :: real)) \<le> 2" by (rule exp_bound_half) simp
  then have "exp (1 / 2 :: real) \<le> exp (ln 2)" by simp
  then show ?thesis by (simp only: exp_le_cancel_iff)
qed

lemma log2_one_plus_gt:
  assumes "0 < x" and "x \<le> 1 / 8"
  shows "x < log 2 (1 + x)"
proof -
  have "x * ln 2 < x * (7 / 8)" using assms(1) ln2_upper by simp
  also have "\<dots> \<le> x * (1 - x)" using assms by (intro mult_left_mono) simp_all
  also have "\<dots> = x - x\<^sup>2" by (simp add: power2_eq_square algebra_simps)
  also have "\<dots> \<le> ln (1 + x)" using assms by (intro ln_one_plus_pos_lower_bound) simp_all
  finally have "x * ln 2 < ln (1 + x)" .
  moreover have "0 < ln (2::real)" by simp
  ultimately show ?thesis by (simp add: log_def pos_less_divide_eq)
qed

lemma log2_one_plus_le:
  assumes "0 \<le> x"
  shows "log 2 (1 + x) \<le> 2 * x"
proof -
  have "ln (1 + x) \<le> x" using assms by (rule ln_add_one_self_le_self)
  also have "x \<le> 2 * x * ln 2"
  proof -
    have "1 \<le> 2 * ln (2::real)" using ln2_lower by simp
    then have "x * 1 \<le> x * (2 * ln 2)" using assms by (rule mult_left_mono)
    then show ?thesis by (simp add: mult.assoc mult.left_commute)
  qed
  finally have "ln (1 + x) \<le> 2 * x * ln 2" .
  moreover have "0 < ln (2::real)" by simp
  ultimately show ?thesis by (simp add: log_def pos_divide_le_eq)
qed

lemma binade_cases:
  assumes "1 \<le> (y::real)" and "y < 64"
  shows "\<exists>e \<le> 5. 2 ^ e \<le> y \<and> y < 2 ^ Suc e"
proof -
  consider "y < 2" | "2 \<le> y" "y < 4" | "4 \<le> y" "y < 8" | "8 \<le> y" "y < 16"
    | "16 \<le> y" "y < 32" | "32 \<le> y"
    by linarith
  then show ?thesis
  proof cases
    case 1
    with assms have "(0::nat) \<le> 5 \<and> 2 ^ 0 \<le> y \<and> y < 2 ^ Suc 0" by simp
    then show ?thesis by blast
  next
    case 2
    then have "(1::nat) \<le> 5 \<and> 2 ^ 1 \<le> y \<and> y < 2 ^ Suc 1" by simp
    then show ?thesis by blast
  next
    case 3
    then have "(2::nat) \<le> 5 \<and> 2 ^ 2 \<le> y \<and> y < 2 ^ Suc 2" by simp
    then show ?thesis by blast
  next
    case 4
    then have "(3::nat) \<le> 5 \<and> 2 ^ 3 \<le> y \<and> y < 2 ^ Suc 3" by simp
    then show ?thesis by blast
  next
    case 5
    then have "(4::nat) \<le> 5 \<and> 2 ^ 4 \<le> y \<and> y < 2 ^ Suc 4" by simp
    then show ?thesis by blast
  next
    case 6
    with assms have "(5::nat) \<le> 5 \<and> 2 ^ 5 \<le> y \<and> y < 2 ^ Suc 5" by simp
    then show ?thesis by blast
  qed
qed

lemma toDouble_nat:
  assumes "j < 64"
  shows "toDouble (real j) = real j"
proof (cases "j = 0")
  case True
  then show ?thesis by (simp add: toDouble_def)
next
  case False
  then have "1 \<le> real j" and "real j < 64" using assms by simp_all
  then obtain e where e: "e \<le> 5" "2 ^ e \<le> real j" "real j < 2 ^ Suc e"
    using binade_cases by blast
  have "toDouble (real j) = of_int (roundEven (real j * 2 ^ (52 - e))) / 2 ^ (52 - e)"
    using e by (intro toDouble_binade) simp_all
  also have "real j * 2 ^ (52 - e) = of_int (int j * 2 ^ (52 - e))" by simp
  also have "roundEven (of_int (int j * 2 ^ (52 - e))) = int j * 2 ^ (52 - e)"
    by (rule roundEven_of_int)
  finally show ?thesis by simp
qed

lemma Math_log2_power:
  assumes "j < 64"
  shows "Math_log2 (2 ^ j) = real j"
proof -
  have "log 2 (of_int (2 ^ j)) = real j" by simp
  then show ?thesis using toDouble_nat [OF assms] by (simp add: Math_log2_def)
qed

lemma ceiling_Math_log2_between:
  fixes n :: int
  assumes j: "1 \<le> j" "j \<le> 48" and lo: "2 ^ j < n" and hi: "n < 2 ^ Suc j"
  shows "\<lceil>Math_log2 n\<rceil> = int j + 1"
proof -
  define y where "y = log 2 (of_int n)"
  define x :: real where "x = 1 / 2 ^ 48"
  have "(0::int) < 2 ^ j" by simp
  then have "0 < n" using lo by linarith
  then have npos: "0 < real_of_int n" by simp
  have x: "0 < x" "x \<le> 1 / 8" by (simp_all add: x_def)
  have "(2::int) ^ j + 1 \<le> n" using lo by simp
  then have "real_of_int (2 ^ j + 1) \<le> real_of_int n" by (simp only: of_int_le_iff)
  then have n1: "2 ^ j + 1 \<le> real_of_int n" by simp
  have "(2::real) ^ j \<le> 2 ^ 48" using j(2) by (intro power_increasing) simp_all
  then have "(2::real) ^ j * x \<le> 1" by (simp add: x_def)
  then have "2 ^ j * (1 + x) \<le> real_of_int n" using n1 by (simp add: algebra_simps)
  then have "log 2 (2 ^ j * (1 + x)) \<le> y"
    unfolding y_def using x(1) npos by (subst log_le_cancel_iff) simp_all
  moreover have "log 2 (2 ^ j * (1 + x)) = real j + log 2 (1 + x)"
    using x(1) by (simp add: log_mult)
  moreover have "x < log 2 (1 + x)" using x by (rule log2_one_plus_gt)
  ultimately have ylo: "real j + x < y" by simp
  have "real_of_int n < real_of_int (2 ^ Suc j)" using hi by (simp only: of_int_less_iff)
  then have "y < log 2 ((2::real) ^ Suc j)"
    unfolding y_def using npos by (subst log_less_cancel_iff) (simp_all del: power_Suc)
  moreover have "log 2 ((2::real) ^ Suc j) = real (Suc j)" by (rule log_pow_cancel) simp_all
  ultimately have yhi: "y < real j + 1" by simp
  have "1 \<le> y" using ylo j(1) x(1) by simp
  moreover have "y < 64" using yhi j(2) by simp
  ultimately obtain e where e: "e \<le> 5" "2 ^ e \<le> y" "y < 2 ^ Suc e"
    using binade_cases by blast
  define s where "s = 52 - e"
  have s: "47 \<le> s" using e(1) by (simp add: s_def)
  have td: "toDouble y = of_int (roundEven (y * 2 ^ s)) / 2 ^ s"
    unfolding s_def using e by (intro toDouble_binade) simp_all
  have "(2::real) ^ 47 \<le> 2 ^ s" using s by (intro power_increasing) simp_all
  then have "1 / 2 \<le> x * 2 ^ s" by (simp add: x_def)
  moreover have "(real j + x) * 2 ^ s < y * 2 ^ s" using ylo by simp
  ultimately have "real_of_int (int j * 2 ^ s) + 1 / 2 < y * 2 ^ s"
    by (simp add: algebra_simps)
  then have "int j * 2 ^ s < roundEven (y * 2 ^ s)" by (rule roundEven_gt)
  then have "real_of_int (int j * 2 ^ s) < real_of_int (roundEven (y * 2 ^ s))"
    by (simp only: of_int_less_iff)
  then have "real j * 2 ^ s < real_of_int (roundEven (y * 2 ^ s))" by simp
  then have below: "real j < toDouble y" by (simp add: td pos_less_divide_eq)
  have "y * 2 ^ s \<le> (real j + 1) * 2 ^ s" using yhi by simp
  then have "y * 2 ^ s \<le> real_of_int ((int j + 1) * 2 ^ s)" by simp
  then have "roundEven (y * 2 ^ s) \<le> (int j + 1) * 2 ^ s" by (rule roundEven_le)
  then have "real_of_int (roundEven (y * 2 ^ s)) \<le> real_of_int ((int j + 1) * 2 ^ s)"
    by (simp only: of_int_le_iff)
  then have "real_of_int (roundEven (y * 2 ^ s)) \<le> (real j + 1) * 2 ^ s" by simp
  then have above: "toDouble y \<le> real j + 1" by (simp add: td pos_divide_le_eq)
  have "\<lceil>toDouble y\<rceil> = int j + 1"
    using below above by (intro ceiling_unique) simp_all
  then show ?thesis by (simp add: Math_log2_def y_def)
qed

lemma nextPowOfTwo_upto:
  assumes "1 \<le> n" and "n \<le> 2 ^ 49"
  shows "nextPowOfTwo n = Some (2 ^ ceillog2 (nat n))"
proof -
  define l where "l = ceillog2 (nat n)"
  have pos: "0 < nat n" using assms(1) by simp
  have "nat n \<le> 2 ^ 49" using assms(2) by (simp add: nat_le_iff)
  then have l49: "l \<le> 49" unfolding l_def using pos by (simp add: ceillog2_le_iff)
  have "nat n \<le> 2 ^ l" unfolding l_def by (rule le_two_power_ceillog2)
  then have "int (nat n) \<le> int (2 ^ l)" by (simp only: of_nat_le_iff)
  then have up: "n \<le> 2 ^ l" using assms(1) by simp
  have "2 ^ l < 2 * nat n" unfolding l_def using pos by (rule two_power_ceillog2_gt)
  then have "int (2 ^ l) < int (2 * nat n)" by (simp only: of_nat_less_iff)
  then have low: "2 ^ l < 2 * n" using assms(1) by simp
  have "\<lceil>Math_log2 n\<rceil> = int l"
  proof (cases "n = 2 ^ l")
    case True
    have "Math_log2 (2 ^ l) = real l" using l49 by (intro Math_log2_power) simp
    then show ?thesis by (simp add: True)
  next
    case False
    with up have lt: "n < 2 ^ l" by simp
    have "l \<noteq> 0" using lt assms(1) by (cases "l = 0") simp_all
    then obtain j where j: "l = Suc j" by (cases l) simp_all
    have lo: "2 ^ j < n" using low by (simp add: j)
    have "j \<noteq> 0" using lo lt by (cases "j = 0") (simp_all add: j)
    then have "1 \<le> j" by simp
    moreover have "j \<le> 48" using l49 j by simp
    ultimately have "\<lceil>Math_log2 n\<rceil> = int j + 1"
      using lo lt unfolding j by (rule ceiling_Math_log2_between)
    then show ?thesis by (simp add: j)
  qed
  then show ?thesis
    using assms(1) l49 by (simp add: nextPowOfTwo_def Let_def l_def)
qed

lemma nextPowOfTwo_above:
  "nextPowOfTwo (2 ^ 49 + 1) = Some (2 ^ 49)"
proof -
  define y :: real where "y = log 2 (of_int (2 ^ 49 + 1))"
  define x :: real where "x = 1 / 2 ^ 49"
  have "real_of_int (2 ^ 49 + 1) = 2 ^ 49 * (1 + x)" by (simp add: x_def)
  then have "y = log 2 (2 ^ 49 * (1 + x))" by (simp only: y_def)
  also have "\<dots> = log 2 (2 ^ 49) + log 2 (1 + x)"
  proof -
    have "0 < 1 + x" by (simp add: x_def)
    then show ?thesis by (subst log_mult) simp
  qed
  also have "log 2 ((2::real) ^ 49) = real 49" by (rule log_pow_cancel) simp_all
  finally have y: "y = 49 + log 2 (1 + x)" by simp
  have "0 \<le> log 2 (1 + x)" by (simp add: x_def)
  moreover have "log 2 (1 + x) \<le> 2 * x" by (rule log2_one_plus_le) (simp add: x_def)
  ultimately have ylo: "49 \<le> y" and yhi: "y \<le> 49 + 2 * x" using y by simp_all
  have "2 ^ 5 \<le> y" using ylo by simp
  moreover have "y < 2 ^ Suc 5" using yhi by (simp add: x_def)
  ultimately have "toDouble y = of_int (roundEven (y * 2 ^ (52 - 5))) / 2 ^ (52 - 5)"
    by (rule toDouble_binade) simp
  then have td: "toDouble y = of_int (roundEven (y * 2 ^ 47)) / 2 ^ 47" by simp
  have "real_of_int (49 * 2 ^ 47) \<le> y * 2 ^ 47" using ylo by simp
  moreover have "y * 2 ^ 47 \<le> real_of_int (49 * 2 ^ 47) + 1 / 2"
  proof -
    have "y * 2 ^ 47 \<le> (49 + 2 * x) * 2 ^ 47" using yhi by simp
    also have "\<dots> = real_of_int (49 * 2 ^ 47) + 1 / 2" by (simp add: x_def)
    finally show ?thesis .
  qed
  moreover have "even (49 * 2 ^ 47 :: int)" by simp
  ultimately have "roundEven (y * 2 ^ 47) = 49 * 2 ^ 47" by (rule roundEven_eq)
  then have "toDouble y = 49" by (simp add: td)
  then have "\<lceil>Math_log2 (2 ^ 49 + 1)\<rceil> = 49" by (simp add: Math_log2_def y_def)
  then show ?thesis by (simp add: nextPowOfTwo_def Let_def)
qed

lemma nextPowOfTwo_pos:
  assumes "1 \<le> n" and "n \<le> 2 ^ 49"
  shows "nextPowOfTwo n = Some (2 ^ ceillog2 (nat n))"
    and "n \<le> 2 ^ ceillog2 (nat n)"
    and "n \<le> 2 ^ j \<Longrightarrow> ceillog2 (nat n) \<le> j"
proof -
  show "nextPowOfTwo n = Some (2 ^ ceillog2 (nat n))"
    using assms by (rule nextPowOfTwo_upto)
  have "nat n \<le> 2 ^ ceillog2 (nat n)" by (rule le_two_power_ceillog2)
  then have "int (nat n) \<le> int (2 ^ ceillog2 (nat n))" by (simp only: of_nat_le_iff)
  then show "n \<le> 2 ^ ceillog2 (nat n)" using assms(1) by simp
  assume "n \<le> 2 ^ j"
  then have "int (nat n) \<le> int (2 ^ j)" using assms(1) by simp
  then have "nat n \<le> 2 ^ j" by (simp only: of_nat_le_iff)
  then show "ceillog2 (nat n) \<le> j" using assms(1) by (simp add: ceillog2_le_iff)
qed

lemma buildMapping_canvasHeight:
  "canvasHeight (buildMapping cs gfw fh b mw m0 xo yo) =
     nextPowOfTwo (yOffset (buildMapping cs gfw fh b mw m0 xo yo) + (fh + b * 2))"
  by (simp add: buildMapping_def Let_def algebra_simps)

text \<open>
  When the rows used have an extent from 1 to \<open>2^49\<close>, the canvas height is a power of
  two that contains them.
\<close>

lemma buildMapping_canvasHeight_positive:
  assumes "1 \<le> yOffset (buildMapping cs gfw fh b mw m0 xo yo) + (fh + b * 2)"
    and "yOffset (buildMapping cs gfw fh b mw m0 xo yo) + (fh + b * 2) \<le> 2 ^ 49"
  shows "\<exists>p. canvasHeight (buildMapping cs gfw fh b mw m0 xo yo) = Some p \<and> isPowOfTwo p \<and>
             yOffset (buildMapping cs gfw fh b mw m0 xo yo) + (fh + b * 2) \<le> p"
  using nextPowOfTwo_pos(1,2) [OF assms] isPowOfTwo_power
  by (simp add: buildMapping_canvasHeight)

text \<open>
  C10. For every integer \<open>n\<close> from 1 to \<open>2^49\<close>, \<^verbatim>\<open>nextPowOfTwo(n)\<close> is the least
  power of two greater than or equal to \<open>n\<close>. But \<^verbatim>\<open>nextPowOfTwo(0)\<close> is \<open>0\<close>: a
  \<^verbatim>\<open>buildMapping\<close> call with \<open>fontHeight = 0\<close> and \<open>buffer = 0\<close> returns
  \<^verbatim>\<open>nextPowOfTwo\<close> of its \<open>yOffset\<close>, which is the \<open>canvasHeight\<close> 0 when
  \<open>yOffset\<close> is left out or 0, and 0 is not a power of two.
\<close>

theorem nextPowOfTwo_least_upto:
  "(1 \<le> n \<and> n \<le> 2 ^ 49 \<longrightarrow>
      (\<exists>p. nextPowOfTwo n = Some p \<and> isPowOfTwo p \<and> n \<le> p \<and>
           (\<forall>q. isPowOfTwo q \<and> n \<le> q \<longrightarrow> p \<le> q))) \<and>
   nextPowOfTwo 0 = Some 0 \<and>
   canvasHeight (buildMapping characterSet getFontWidth 0 0 maxCanvasWidth m0 xo yo) =
     nextPowOfTwo (case yo of None \<Rightarrow> 0 | Some v \<Rightarrow> v) \<and>
   (yo \<in> {None, Some 0} \<longrightarrow>
      canvasHeight (buildMapping characterSet getFontWidth 0 0 maxCanvasWidth m0 xo yo) = Some 0) \<and>
   \<not> isPowOfTwo 0"
proof -
  have least: "\<exists>p. nextPowOfTwo n = Some p \<and> isPowOfTwo p \<and> n \<le> p \<and>
           (\<forall>q. isPowOfTwo q \<and> n \<le> q \<longrightarrow> p \<le> q)" if n: "1 \<le> n" "n \<le> 2 ^ 49"
  proof -
    let ?k = "ceillog2 (nat n)"
    have "\<forall>q. isPowOfTwo q \<and> n \<le> q \<longrightarrow> (2::int) ^ ?k \<le> q"
    proof (intro allI impI)
      fix q assume q: "isPowOfTwo q \<and> n \<le> q"
      then obtain j where j: "q = 2 ^ j" using isPowOfTwo_imp_power by blast
      with q have "?k \<le> j" using nextPowOfTwo_pos(3) [OF n] by simp
      then show "(2::int) ^ ?k \<le> q" by (simp add: j)
    qed
    with nextPowOfTwo_pos(1,2) [OF n] isPowOfTwo_power show ?thesis by blast
  qed
  have zero: "nextPowOfTwo 0 = Some 0" by (simp add: nextPowOfTwo_def)
  have canvas: "canvasHeight (buildMapping characterSet getFontWidth 0 0 maxCanvasWidth m0 xo yo) = Some 0"
    if "yo \<in> {None, Some 0}"
    using that by (auto simp: buildMapping_def Let_def nextPowOfTwo_def)
  have general: "canvasHeight (buildMapping characterSet getFontWidth 0 0 maxCanvasWidth m0 xo yo) =
     nextPowOfTwo (case yo of None \<Rightarrow> 0 | Some v \<Rightarrow> v)"
    by (simp add: buildMapping_def Let_def)
  have "\<not> isPowOfTwo 0" by (simp add: isPowOfTwo.simps)
  with least zero canvas general show ?thesis by blast
qed

theorem nextPowOfTwo_least_upto_witness:
  "(1::int) \<le> 5 \<and> (5::int) \<le> 2 ^ 49 \<and> nextPowOfTwo 5 = Some 8 \<and>
   isPowOfTwo 8 \<and> \<not> isPowOfTwo 5 \<and> \<not> isPowOfTwo 6 \<and> \<not> isPowOfTwo 7 \<and>
   (None::int option) \<in> {None, Some 0} \<and>
   canvasHeight (buildMapping ''ab'' (\<lambda>c i. 30) 0 0 64 None None None) = Some 0"
proof -
  have a: "(1::int) \<le> 5" "(5::int) \<le> 2 ^ 49" by simp_all
  have b: "(None::int option) \<in> {None, Some 0}" by simp
  have "ceillog2 (nat 5) = 3" by code_simp
  with nextPowOfTwo_upto [OF a] have c: "nextPowOfTwo 5 = Some 8" by simp
  have d: "isPowOfTwo 8 \<and> \<not> isPowOfTwo 5 \<and> \<not> isPowOfTwo 6 \<and> \<not> isPowOfTwo 7"
    by code_simp
  from nextPowOfTwo_least_upto [where n = 5 and yo = None and characterSet = "''ab''"
      and getFontWidth = "\<lambda>c i. 30" and maxCanvasWidth = 64 and ?m0.0 = None and xo = None] a b c d
  show ?thesis by simp
qed

text \<open>
  Just above \<open>2^49\<close> the result is too small: the logarithm of \<open>2^49 + 1\<close> is nearer to
  49 than to the next double, so \<^verbatim>\<open>nextPowOfTwo(562949953421313)\<close> is
  \<open>562949953421312 = 2^49\<close>.
\<close>

theorem nextPowOfTwo_above_counterexample:
  "(1::int) \<le> 562949953421313 \<and>
   nextPowOfTwo 562949953421313 = Some 562949953421312 \<and>
   (562949953421312::int) < 562949953421313 \<and>
   isPowOfTwo 562949953421312"
proof -
  have "nextPowOfTwo 562949953421313 = Some 562949953421312"
    using nextPowOfTwo_above by simp
  moreover have "isPowOfTwo 562949953421312"
    using isPowOfTwo_power [of 49] by simp
  ultimately show ?thesis by simp
qed

text \<open>
  C5. The returned \<open>canvasHeight\<close> should be a power of two that is at least the extent
  \<open>yOffset + (row + 1) * (fontHeight + 2 * buffer)\<close> of the rows. For a font height and
  a buffer of 0 from the offset 0 the extent is 0 and the code returns the canvas height
  0, which is not a power of two; the least power of two that contains the extent is 1.
\<close>

theorem buildMapping_zero_extent:
  "canvasHeight (buildMapping [] (\<lambda>c i. 0) 0 0 64 None None None) = Some 0 \<and>
   yOffset (buildMapping [] (\<lambda>c i. 0) 0 0 64 None None None) + (0 + 1) * (0 + 2 * 0) = 0 \<and>
   \<not> isPowOfTwo 0 \<and> isPowOfTwo 1"
  by (simp add: buildMapping_def Let_def nextPowOfTwo_def isPowOfTwo.simps)

text \<open>
  C6. A \<^verbatim>\<open>buildMapping\<close> call on an existing mapping \<open>m\<close> leaves every character of
  \<open>m\<close> with exactly the entry it had: the returned mapping starts with \<open>m\<close> itself, and
  every entry after it is for a character of \<open>characterSet\<close> that \<open>m\<close> did not have.
\<close>

theorem buildMapping_keeps_entries:
  "(map_of m c = Some e \<longrightarrow>
      map_of (mapping (buildMapping characterSet getFontWidth fontHeight buffer maxCanvasWidth (Some m) xo yo)) c
        = Some e) \<and>
   take (length m) (mapping (buildMapping characterSet getFontWidth fontHeight buffer maxCanvasWidth (Some m) xo yo))
     = m \<and>
   (\<forall>p \<in> set (drop (length m)
                (mapping (buildMapping characterSet getFontWidth fontHeight buffer maxCanvasWidth (Some m) xo yo))).
      map_of m (fst p) = None \<and> fst p \<in> set characterSet)"
proof -
  let ?s0 = "\<lparr>ps_mapping = m, ps_x = (case xo of None \<Rightarrow> 0 | Some v \<Rightarrow> v), ps_row = 0\<rparr>"
  let ?f = "placeChar getFontWidth fontHeight buffer maxCanvasWidth (case yo of None \<Rightarrow> 0 | Some v \<Rightarrow> v)"
  have res: "mapping (buildMapping characterSet getFontWidth fontHeight buffer maxCanvasWidth (Some m) xo yo)
          = ps_mapping (forEachChar ?f characterSet 0 ?s0)"
    by (simp add: buildMapping_def Let_def)
  have keep: "map_of m c = Some e \<longrightarrow> map_of (ps_mapping (forEachChar ?f characterSet 0 ?s0)) c = Some e"
    using forEachChar_keeps [of ?s0 c e] by simp
  obtain new where new: "ps_mapping (forEachChar ?f characterSet 0 ?s0) = ps_mapping ?s0 @ new"
      "\<forall>p \<in> set new. map_of (ps_mapping ?s0) (fst p) = None \<and> fst p \<in> set characterSet"
    using forEachChar_extends by blast
  from keep new show ?thesis by (simp add: res)
qed

theorem buildMapping_keeps_entries_witness:
  "map_of [(CHR ''a'', \<lparr>frame_x = 2, frame_y = 2, frame_width = 30, frame_height = 10, frame_mask = True\<rparr>)]
      CHR ''a''
     = Some \<lparr>frame_x = 2, frame_y = 2, frame_width = 30, frame_height = 10, frame_mask = True\<rparr> \<and>
   mapping (buildMapping ''ba'' (\<lambda>c i. 40) 10 2 64
      (Some [(CHR ''a'', \<lparr>frame_x = 2, frame_y = 2, frame_width = 30, frame_height = 10, frame_mask = True\<rparr>)])
      (Some 34) None)
     = [(CHR ''a'', \<lparr>frame_x = 2, frame_y = 2, frame_width = 30, frame_height = 10, frame_mask = True\<rparr>),
        (CHR ''b'', \<lparr>frame_x = 2, frame_y = 16, frame_width = 40, frame_height = 10, frame_mask = True\<rparr>)]"
proof -
  have r: "mapping (buildMapping ''ba'' (\<lambda>c i. 40) 10 2 64
      (Some [(CHR ''a'', \<lparr>frame_x = 2, frame_y = 2, frame_width = 30, frame_height = 10, frame_mask = True\<rparr>)])
      (Some 34) None)
     = [(CHR ''a'', \<lparr>frame_x = 2, frame_y = 2, frame_width = 30, frame_height = 10, frame_mask = True\<rparr>),
        (CHR ''b'', \<lparr>frame_x = 2, frame_y = 16, frame_width = 40, frame_height = 10, frame_mask = True\<rparr>)]"
    by (simp add: buildMapping_def Let_def placeChar_def)
  from buildMapping_keeps_entries
    [of "[(CHR ''a'', \<lparr>frame_x = 2, frame_y = 2, frame_width = 30, frame_height = 10, frame_mask = True\<rparr>)]"
        "CHR ''a''" "\<lparr>frame_x = 2, frame_y = 2, frame_width = 30, frame_height = 10, frame_mask = True\<rparr>"
        "''ba''" "\<lambda>c i. 40" 10 2 64 "Some 34" None] r
  show ?thesis by simp
qed





section \<open>Properties of the paragraph layout\<close>

lemma transformRow_eq:
  "transformRow aw row im w lh wb fs ff fw ta =
     (if truthy wb \<and> im = [] then Inl TypeError
      else Inr (layoutRow row im w lh (measured aw row im w lh wb fs ff fw ta)))"
  by (cases im) (auto simp: transformRow_def measured_def Let_def)

lemma measured_fixed: "\<not> truthy wb \<Longrightarrow> measured aw row im w lh wb fs ff fw ta = None"
  by (simp add: measured_def)

text \<open>The loop of a row, in any mode: the texts and the warnings.\<close>

lemma mapChars_Cons:
  "fst (mapChars f (c # cs) i s) = fst (f s c i) # fst (mapChars f cs (Suc i) (snd (f s c i)))"
  "snd (mapChars f (c # cs) i s) = snd (mapChars f cs (Suc i) (snd (f s c i)))"
  by (simp_all split: prod.splits)

lemma mapChars_length: "length (fst (mapChars f cs i s)) = length cs"
  by (induction cs arbitrary: i s) (simp_all add: mapChars_Cons del: mapChars.simps(2))

lemma rowChar_text: "datum_text (fst (rowChar im lh td n s c i)) = c"
  by (auto simp: rowChar_def Let_def split: option.splits)

lemma rowChar_warnings:
  "rs_warnings (snd (rowChar im lh td n s c i)) =
     rs_warnings s @ (case map_of im c of None \<Rightarrow> [''Missing character: '' @ [c]] | Some _ \<Rightarrow> [])"
  by (auto simp: rowChar_def Let_def split: option.splits)

lemma mapChars_rowChar_text:
  "map datum_text (fst (mapChars (rowChar im lh td n) cs i s)) = cs"
  by (induction cs arbitrary: i s)
     (simp_all add: mapChars_Cons rowChar_text del: mapChars.simps(2))

lemma mapChars_rowChar_warnings:
  "rs_warnings (snd (mapChars (rowChar im lh td n) cs i s)) =
     rs_warnings s @ map (\<lambda>c. ''Missing character: '' @ [c]) (filter (\<lambda>c. map_of im c = None) cs)"
  by (induction cs arbitrary: i s)
     (simp_all add: mapChars_Cons rowChar_warnings del: mapChars.simps(2) split: option.splits)

text \<open>Fixed-width mode: the offsets and the row height.\<close>

lemma rowChar_fixed:
  "fst (rowChar im lh None n s c i) =
     \<lparr>datum_text = c, datum_offsetTop = 0, datum_offsetLeft = rs_offsetLeft s,
      datum_size = None, datum_rowSize = None\<rparr>"
  "rs_offsetLeft (snd (rowChar im lh None n s c i)) = rs_offsetLeft s + advance im c"
  "rs_rowHeight (snd (rowChar im lh None n s c i)) =
     (case map_of im c of
        Some frame \<Rightarrow> if rs_rowHeight s = 0 then frame_height frame * lh else rs_rowHeight s
      | None \<Rightarrow> rs_rowHeight s)"
  by (auto simp: rowChar_def advance_def Let_def split: option.splits)

lemma mapChars_fixed_offsetLeft:
  "rs_offsetLeft (snd (mapChars (rowChar im lh None n) cs i s)) =
     rs_offsetLeft s + sum_list (map (advance im) cs)"
  by (induction cs arbitrary: i s)
     (simp_all add: mapChars_Cons rowChar_fixed add.assoc del: mapChars.simps(2))

lemma mapChars_fixed_datums:
  "k < length cs \<Longrightarrow>
   fst (mapChars (rowChar im lh None n) cs i s) ! k =
     \<lparr>datum_text = cs ! k, datum_offsetTop = 0,
      datum_offsetLeft = rs_offsetLeft s + sum_list (map (advance im) (take k cs)),
      datum_size = None, datum_rowSize = None\<rparr>"
proof (induction cs arbitrary: i s k)
  case Nil
  then show ?case by simp
next
  case (Cons c cs)
  show ?case
  proof (cases k)
    case 0
    then show ?thesis by (simp add: mapChars_Cons rowChar_fixed del: mapChars.simps(2))
  next
    case (Suc j)
    with Cons.prems have "j < length cs" by simp
    from Cons.IH [OF this] show ?thesis
      by (simp add: Suc mapChars_Cons rowChar_fixed add.assoc del: mapChars.simps(2))
  qed
qed

lemma mapChars_fixed_rowHeight:
  "rs_rowHeight (snd (mapChars (rowChar im lh None n) cs i s)) =
     (if rs_rowHeight s \<noteq> 0 then rs_rowHeight s
      else (case List.find (\<lambda>c. case map_of im c of None \<Rightarrow> False
                                   | Some frame \<Rightarrow> frame_height frame * lh \<noteq> 0) cs of
              None \<Rightarrow> 0
            | Some c \<Rightarrow> (case map_of im c of None \<Rightarrow> 0 | Some frame \<Rightarrow> frame_height frame * lh)))"
proof (induction cs arbitrary: i s)
  case Nil
  show ?case by simp
next
  case (Cons c cs)
  show ?case
    by (cases "map_of im c")
       (simp_all add: mapChars_Cons rowChar_fixed(3) Cons.IH del: mapChars.simps(2))
qed

lemma splitLines_nonempty: "splitLines p \<noteq> []"
  by (induction p) (auto split: list.splits)

lemma foldl_pushDatum:
  "foldl (pushDatum tc t0 sizeRef rowRef) td ds =
     td @ map (\<lambda>datum. tc (datum\<lparr>datum_offsetTop := datum_offsetTop datum + t0,
                   datum_size := Some sizeRef,
                   datum_rowSize := (case datum_rowSize datum of Some a \<Rightarrow> Some a | None \<Rightarrow> Some rowRef)\<rparr>)) ds"
  by (induction ds arbitrary: td) (simp_all add: pushDatum_def)

lemma paragraphRow_eq:
  assumes "\<not> (truthy wb \<and> im = [])" and "sizeRef < length (pa_store s)"
  shows "paragraphRow aw im tc lh wb fs ff fw w ta sizeRef s row =
     (let r = layoutRow row im w lh (measured aw row im w lh wb fs ff fw ta)
      in Inr \<lparr>pa_store = (pa_store s @ [(rowWidth r, rowHeight r)])
                  [sizeRef := (max (fst (pa_store s ! sizeRef)) (rowWidth r), snd (pa_store s ! sizeRef))],
              pa_transformedData = pa_transformedData s @ emitRows tc sizeRef (pa_offsetTop s) (length (pa_store s)) [r],
              pa_offsetTop = pa_offsetTop s + rowHeight r,
              pa_warnings = pa_warnings s @ warnings r\<rparr>)"
  using assms
  by (simp add: paragraphRow_def transformRow_eq Let_def foldl_pushDatum nth_append)

lemma emitRows_append:
  "emitRows tc a t0 ref (rs @ rs') =
     emitRows tc a t0 ref rs @ emitRows tc a (t0 + sum_list (map rowHeight rs)) (ref + length rs) rs'"
  by (induction rs arbitrary: t0 ref) (simp_all add: add.assoc)

lemma forEachRow_eq:
  assumes ok: "\<not> (truthy wb \<and> im = [])" and ref: "sizeRef < length (pa_store s)"
  shows "forEachRow (paragraphRow aw im tc lh wb fs ff fw w ta sizeRef) rows s =
     (let rs = map (\<lambda>row. layoutRow row im w lh (measured aw row im w lh wb fs ff fw ta)) rows
      in Inr \<lparr>pa_store = (pa_store s @ map (\<lambda>r. (rowWidth r, rowHeight r)) rs)
                  [sizeRef := (foldl max (fst (pa_store s ! sizeRef)) (map rowWidth rs),
                               snd (pa_store s ! sizeRef))],
              pa_transformedData = pa_transformedData s @ emitRows tc sizeRef (pa_offsetTop s) (length (pa_store s)) rs,
              pa_offsetTop = pa_offsetTop s + sum_list (map rowHeight rs),
              pa_warnings = pa_warnings s @ concat (map warnings rs)\<rparr>)"
  using ref
proof (induction rows arbitrary: s)
  case Nil
  then show ?case by simp
next
  case (Cons row rows)
  let ?r = "layoutRow row im w lh (measured aw row im w lh wb fs ff fw ta)"
  let ?s1 = "\<lparr>pa_store = (pa_store s @ [(rowWidth ?r, rowHeight ?r)])
                  [sizeRef := (max (fst (pa_store s ! sizeRef)) (rowWidth ?r), snd (pa_store s ! sizeRef))],
              pa_transformedData = pa_transformedData s @ emitRows tc sizeRef (pa_offsetTop s) (length (pa_store s)) [?r],
              pa_offsetTop = pa_offsetTop s + rowHeight ?r,
              pa_warnings = pa_warnings s @ warnings ?r\<rparr>"
  have step: "paragraphRow aw im tc lh wb fs ff fw w ta sizeRef s row = Inr ?s1"
    using paragraphRow_eq [OF ok Cons.prems] by (simp add: Let_def)
  have ref1: "sizeRef < length (pa_store ?s1)" using Cons.prems by simp
  show ?case
    using Cons.prems
    by (simp only: forEachRow.simps step sum.case Cons.IH [OF ref1])
       (simp add: Let_def list_update_append nth_append add.assoc)
qed

lemma transformParagraph_eq:
  "transformParagraph aw paragraph im tc lh wb fs ff fw w ta td store =
     (if truthy wb \<and> im = [] then Inl TypeError
      else let rs = map (\<lambda>row. layoutRow row im w lh (measured aw row im w lh wb fs ff fw ta))
                      (splitLines paragraph)
           in Inr \<lparr>pa_store = store @ [(foldl max 0 (map rowWidth rs), sum_list (map rowHeight rs))]
                                @ map (\<lambda>r. (rowWidth r, rowHeight r)) rs,
                   pa_transformedData = td @ emitRows tc (length store) 0 (Suc (length store)) rs,
                   pa_offsetTop = sum_list (map rowHeight rs),
                   pa_warnings = concat (map warnings rs)\<rparr>)"
proof (cases "truthy wb \<and> im = []")
  case True
  obtain row rows where rows: "splitLines paragraph = row # rows"
    using splitLines_nonempty [of "paragraph"] by (cases "splitLines paragraph") auto
  show ?thesis
    using True by (simp add: transformParagraph_def rows paragraphRow_def transformRow_eq Let_def)
next
  case False
  let ?s0 = "\<lparr>pa_store = store @ [(0, 0)], pa_transformedData = td, pa_offsetTop = 0,
               pa_warnings = []\<rparr> :: ('a, 'b) para_state"
  have ref: "length store < length (pa_store ?s0)" by simp
  show ?thesis
    using False
    by (simp only: transformParagraph_def Let_def forEachRow_eq [OF False ref])
       (simp add: Let_def list_update_append nth_append)
qed

lemma emitRows_map: "emitRows tc a t0 ref rs = map tc (emitRows (\<lambda>d. d) a t0 ref rs)"
  by (induction rs arbitrary: t0 ref) simp_all

lemma emitRows_size: "d \<in> set (emitRows (\<lambda>d. d) a t0 ref rs) \<Longrightarrow> datum_size d = Some a"
  by (induction rs arbitrary: t0 ref) auto

lemma emitRows_length:
  "length (emitRows tc a t0 ref rs) = length (concat (map characters rs))"
  by (induction rs arbitrary: t0 ref) simp_all

lemma emitRows_text:
  "map datum_text (emitRows (\<lambda>d. d) a t0 ref rs) = concat (map (map datum_text \<circ> characters) rs)"
  by (induction rs arbitrary: t0 ref) (simp_all add: comp_def)

lemma foldl_max_Max: "foldl max a xs = Max (insert (a::'a::linorder) (set xs))"
proof (induction xs arbitrary: a)
  case Nil
  show ?case by simp
next
  case (Cons x xs)
  have "Max (insert (max a x) (set xs)) = Max (insert a (insert x (set xs)))"
    by (cases "set xs = {}") (simp_all add: max.assoc)
  then show ?case by (simp add: Cons.IH)
qed

lemma concat_splitLines: "concat (splitLines p) = filter (\<lambda>c. c \<noteq> CHR 0x0A) p"
  by (induction p) (auto split: list.splits)

lemma layoutRow_text: "map datum_text (characters (layoutRow row im w lh td)) = row"
proof -
  obtain ds s where m: "mapChars (rowChar im lh td (length row)) row 0
      \<lparr>rs_offsetLeft = 0, rs_rowHeight = 0, rs_warnings = []\<rparr> = (ds, s)"
    by (cases "mapChars (rowChar im lh td (length row)) row 0
      \<lparr>rs_offsetLeft = 0, rs_rowHeight = 0, rs_warnings = []\<rparr>")
  have "map datum_text (fst (mapChars (rowChar im lh td (length row)) row 0
      \<lparr>rs_offsetLeft = 0, rs_rowHeight = 0, rs_warnings = []\<rparr>)) = row"
    by (rule mapChars_rowChar_text)
  then show ?thesis by (simp add: layoutRow_def m)
qed

lemma layoutRow_warnings:
  "warnings (layoutRow row im w lh td) =
     map (\<lambda>c. ''Missing character: '' @ [c]) (filter (\<lambda>c. map_of im c = None) row)"
proof -
  obtain ds s where m: "mapChars (rowChar im lh td (length row)) row 0
      \<lparr>rs_offsetLeft = 0, rs_rowHeight = 0, rs_warnings = []\<rparr> = (ds, s)"
    by (cases "mapChars (rowChar im lh td (length row)) row 0
      \<lparr>rs_offsetLeft = 0, rs_rowHeight = 0, rs_warnings = []\<rparr>")
  have "rs_warnings (snd (mapChars (rowChar im lh td (length row)) row 0
      \<lparr>rs_offsetLeft = 0, rs_rowHeight = 0, rs_warnings = []\<rparr>)) =
      [] @ map (\<lambda>c. ''Missing character: '' @ [c]) (filter (\<lambda>c. map_of im c = None) row)"
    by (simp only: mapChars_rowChar_warnings row_state.simps)
  then show ?thesis by (simp add: layoutRow_def m)
qed

lemma layoutRow_fixed:
  "rowWidth (layoutRow row im w lh None) = sum_list (map (advance im) row)"
  "rowHeight (layoutRow row im w lh None) =
     (case List.find (\<lambda>c. case map_of im c of None \<Rightarrow> False
                                   | Some frame \<Rightarrow> frame_height frame * lh \<noteq> 0) row of
        None \<Rightarrow> 0
      | Some c \<Rightarrow> (case map_of im c of None \<Rightarrow> 0 | Some frame \<Rightarrow> frame_height frame * lh))"
  "k < length row \<Longrightarrow> characters (layoutRow row im w lh None) ! k =
     \<lparr>datum_text = row ! k, datum_offsetTop = 0,
      datum_offsetLeft = sum_list (map (advance im) (take k row)),
      datum_size = None, datum_rowSize = None\<rparr>"
  "length (characters (layoutRow row im w lh None)) = length row"
proof -
  let ?s0 = "\<lparr>rs_offsetLeft = 0, rs_rowHeight = 0, rs_warnings = []\<rparr> :: 'a row_state"
  obtain ds s where m: "mapChars (rowChar im lh None (length row)) row 0 ?s0 = (ds, s)"
    by (cases "mapChars (rowChar im lh None (length row)) row 0 ?s0")
  have ds: "ds = fst (mapChars (rowChar im lh None (length row)) row 0 ?s0)"
    and s: "s = snd (mapChars (rowChar im lh None (length row)) row 0 ?s0)"
    by (simp_all add: m)
  show "rowWidth (layoutRow row im w lh None) = sum_list (map (advance im) row)"
    by (simp add: layoutRow_def m) (simp add: s mapChars_fixed_offsetLeft)
  show "rowHeight (layoutRow row im w lh None) =
     (case List.find (\<lambda>c. case map_of im c of None \<Rightarrow> False
                                   | Some frame \<Rightarrow> frame_height frame * lh \<noteq> 0) row of
        None \<Rightarrow> 0
      | Some c \<Rightarrow> (case map_of im c of None \<Rightarrow> 0 | Some frame \<Rightarrow> frame_height frame * lh))"
    by (simp add: layoutRow_def m) (simp add: s mapChars_fixed_rowHeight)
  show "length (characters (layoutRow row im w lh None)) = length row"
    by (simp add: layoutRow_def m) (simp add: ds mapChars_length)
  assume "k < length row"
  then show "characters (layoutRow row im w lh None) ! k =
     \<lparr>datum_text = row ! k, datum_offsetTop = 0,
      datum_offsetLeft = sum_list (map (advance im) (take k row)),
      datum_size = None, datum_rowSize = None\<rparr>"
    by (simp add: layoutRow_def m) (simp add: ds mapChars_fixed_datums)
qed

lemma layoutRow_fixed_offsetTop:
  "d \<in> set (characters (layoutRow row im w lh None)) \<Longrightarrow> datum_offsetTop d = 0"
  by (auto simp: in_set_conv_nth layoutRow_fixed)

lemma emitRows_offsetTop:
  assumes "\<forall>r \<in> set rs. \<forall>d \<in> set (characters r). datum_offsetTop d = 0"
  shows "map datum_offsetTop (emitRows (\<lambda>d. d) a t0 ref rs) =
     concat (map (\<lambda>k. replicate (length (characters (rs ! k))) (t0 + sum_list (map rowHeight (take k rs))))
               [0..<length rs])"
  using assms
proof (induction rs arbitrary: t0 ref)
  case Nil
  show ?case by simp
next
  case (Cons r rs)
  have upt: "[0..<length (r # rs)] = 0 # map Suc [0..<length rs]"
    unfolding map_Suc_upt by (simp add: upt_conv_Cons del: upt_Suc)
  have here: "map (\<lambda>x. datum_offsetTop x + t0) (characters r) = replicate (length (characters r)) t0"
    using Cons.prems by (simp add: map_replicate_const [symmetric] cong: map_cong)
  have rest: "map datum_offsetTop (emitRows (\<lambda>d. d) a (t0 + rowHeight r) (Suc ref) rs) =
     concat (map (\<lambda>k. replicate (length (characters (rs ! k)))
                        (t0 + rowHeight r + sum_list (map rowHeight (take k rs))))
               [0..<length rs])"
    using Cons.prems by (intro Cons.IH) simp
  show ?case
    by (simp only: upt) (simp add: here rest comp_def add.assoc)
qed

lemma transformRow_missing_character:
  assumes "\<not> (truthy wb \<and> im = [])"
  shows "\<exists>r. transformRow aw row im w lh wb fs ff fw ta = Inr r \<and>
           map datum_text (characters r) = row \<and>
           warnings r = map (\<lambda>c. ''Missing character: '' @ [c]) (filter (\<lambda>c. map_of im c = None) row) \<and>
           (\<not> truthy wb \<longrightarrow>
              rowWidth r = sum_list (map (advance im) row) \<and>
              (\<forall>k < length row.
                 datum_offsetLeft (characters r ! k) = sum_list (map (advance im) (take k row))))"
  using assms
  by (auto simp: transformRow_eq layoutRow_text layoutRow_warnings measured_fixed layoutRow_fixed)

lemma advance_missing: "map_of im c = None \<Longrightarrow> advance im c = 32"
  by (simp add: advance_def MISSING_CHAR_WIDTH_def)

text \<open>
  C7. A character that is absent from the \<open>iconMapping\<close> should never make row layout
  throw. In word-break mode on an empty mapping, where the character \<open>a\<close> of the row is
  absent, \<^verbatim>\<open>transformRow\<close> throws a \<^verbatim>\<open>TypeError\<close> before it processes any character, and
  \<^verbatim>\<open>transformParagraph\<close> with it. In every other case the row is laid out with a
  warning and the fallback width 32 for each absent character, which is the lemma
  \<open>transformRow_missing_character\<close>.
\<close>

theorem transformRow_throws_on_empty_mapping:
  "map_of ([] :: 'n::linordered_idom char_mapping) CHR ''a'' = None \<and>
   transformRow aw ''a'' ([] :: 'n char_mapping) w lh (Some ''break-all'') fs ff fw ta = Inl TypeError \<and>
   transformParagraph aw ''a'' ([] :: 'n char_mapping) tc lh (Some ''break-all'') fs ff fw w ta td store
     = Inl TypeError"
  by (simp add: transformRow_eq transformParagraph_eq truthy_def)

text \<open>
  C8. Once \<^verbatim>\<open>transformParagraph\<close> has returned, every record it emitted is the image
  under \<^verbatim>\<open>transformCharacter\<close> of a record whose \<open>size\<close> is the one array allocated
  by the call, and that array holds the largest row width (from 0, so the maximum over the
  rows when no row width is negative) and the sum of the row heights; one record is
  emitted for every character that is not a line feed. In particular the paragraph
  \<^verbatim>\<open>"ab\ncd"\<close> in fixed-width mode gives exactly 4 records, the two of row 0 at
  \<open>offsetTop = 0\<close> and the two of row 1 at the height of row 0, all 4 with the same
  \<open>size\<close> reference.
\<close>

theorem transformParagraph_size:
  "(transformParagraph aw paragraph im tc lh wb fs ff fw w ta td store = Inr res \<longrightarrow>
      (\<exists>rs ds.
         map (\<lambda>row. transformRow aw row im w lh wb fs ff fw ta) (splitLines paragraph) = map Inr rs \<and>
         pa_transformedData res = td @ map tc ds \<and>
         map datum_text ds = filter (\<lambda>c. c \<noteq> CHR 0x0A) paragraph \<and>
         (\<forall>d \<in> set ds.
            datum_size d = Some (length store) \<and>
            sizeOf (pa_store res) d =
              Some (Max (insert 0 (set (map rowWidth rs))), sum_list (map rowHeight rs))) \<and>
         ((\<forall>r \<in> set rs. 0 \<le> rowWidth r) \<longrightarrow>
            Max (insert 0 (set (map rowWidth rs))) = Max (set (map rowWidth rs))))) \<and>
   transformParagraph aw ''ab\<newline>cd'' im tc lh None fs ff fw w ta td store =
     (let r0 = layoutRow ''ab'' im w lh None;
          r1 = layoutRow ''cd'' im w lh None;
          sizeRef = length store
      in Inr \<lparr>pa_store = store @ [(max (max 0 (rowWidth r0)) (rowWidth r1), rowHeight r0 + rowHeight r1),
                                   (rowWidth r0, rowHeight r0), (rowWidth r1, rowHeight r1)],
              pa_transformedData = td @ map tc
                [\<lparr>datum_text = CHR ''a'', datum_offsetTop = 0, datum_offsetLeft = 0,
                  datum_size = Some sizeRef, datum_rowSize = Some (sizeRef + 1)\<rparr>,
                 \<lparr>datum_text = CHR ''b'', datum_offsetTop = 0, datum_offsetLeft = advance im CHR ''a'',
                  datum_size = Some sizeRef, datum_rowSize = Some (sizeRef + 1)\<rparr>,
                 \<lparr>datum_text = CHR ''c'', datum_offsetTop = rowHeight r0, datum_offsetLeft = 0,
                  datum_size = Some sizeRef, datum_rowSize = Some (sizeRef + 2)\<rparr>,
                 \<lparr>datum_text = CHR ''d'', datum_offsetTop = rowHeight r0, datum_offsetLeft = advance im CHR ''c'',
                  datum_size = Some sizeRef, datum_rowSize = Some (sizeRef + 2)\<rparr>],
              pa_offsetTop = rowHeight r0 + rowHeight r1,
              pa_warnings = warnings r0 @ warnings r1\<rparr>)"
proof -
  have general:
    "\<exists>rs ds.
         map (\<lambda>row. transformRow aw row im w lh wb fs ff fw ta) (splitLines paragraph) = map Inr rs \<and>
         pa_transformedData res = td @ map tc ds \<and>
         map datum_text ds = filter (\<lambda>c. c \<noteq> CHR 0x0A) paragraph \<and>
         (\<forall>d \<in> set ds.
            datum_size d = Some (length store) \<and>
            sizeOf (pa_store res) d =
              Some (Max (insert 0 (set (map rowWidth rs))), sum_list (map rowHeight rs))) \<and>
         ((\<forall>r \<in> set rs. 0 \<le> rowWidth r) \<longrightarrow>
            Max (insert 0 (set (map rowWidth rs))) = Max (set (map rowWidth rs)))"
    if ret: "transformParagraph aw paragraph im tc lh wb fs ff fw w ta td store = Inr res"
  proof -
    let ?rs = "map (\<lambda>row. layoutRow row im w lh (measured aw row im w lh wb fs ff fw ta))
                 (splitLines paragraph)"
    let ?ds = "emitRows (\<lambda>d. d) (length store) 0 (Suc (length store)) ?rs"
    let ?box = "(Max (insert 0 (set (map rowWidth ?rs))), sum_list (map rowHeight ?rs))"
    from ret have ok: "\<not> (truthy wb \<and> im = [])"
      by (auto simp: transformParagraph_eq)
    from ret ok have res: "res =
        \<lparr>pa_store = store @ [(foldl max 0 (map rowWidth ?rs), sum_list (map rowHeight ?rs))]
                                @ map (\<lambda>r. (rowWidth r, rowHeight r)) ?rs,
         pa_transformedData = td @ emitRows tc (length store) 0 (Suc (length store)) ?rs,
         pa_offsetTop = sum_list (map rowHeight ?rs),
         pa_warnings = concat (map warnings ?rs)\<rparr>"
      by (simp add: transformParagraph_eq Let_def)
    have 1: "map (\<lambda>row. transformRow aw row im w lh wb fs ff fw ta) (splitLines paragraph) = map Inr ?rs"
      using ok by (simp add: transformRow_eq)
    have 2: "pa_transformedData res = td @ map tc ?ds"
      by (subst res, subst emitRows_map) simp
    have "map datum_text ?ds = concat (splitLines paragraph)"
      by (simp add: emitRows_text comp_def layoutRow_text)
    then have 3: "map datum_text ?ds = filter (\<lambda>c. c \<noteq> CHR 0x0A) paragraph"
      by (simp add: concat_splitLines)
    have store: "pa_store res ! length store = ?box"
      by (subst res) (simp add: foldl_max_Max nth_append)
    have len: "length store < length (pa_store res)"
      by (subst res) simp
    have 4: "\<forall>d \<in> set ?ds. datum_size d = Some (length store) \<and> sizeOf (pa_store res) d = Some ?box"
      using store len by (auto simp: sizeOf_def dest: emitRows_size)
    have 5: "(\<forall>r \<in> set ?rs. 0 \<le> rowWidth r) \<longrightarrow>
            Max (insert 0 (set (map rowWidth ?rs))) = Max (set (map rowWidth ?rs))"
    proof
      assume nonneg: "\<forall>r \<in> set ?rs. 0 \<le> rowWidth r"
      have ne: "set (map rowWidth ?rs) \<noteq> {}" using splitLines_nonempty [of "paragraph"] by simp
      then have "\<exists>x. x \<in> set (map rowWidth ?rs)" unfolding ex_in_conv by assumption
      then obtain x where x: "x \<in> set (map rowWidth ?rs)" ..
      with nonneg have "0 \<le> x" by auto
      also have "x \<le> Max (set (map rowWidth ?rs))" using x by (intro Max_ge) simp_all
      finally have "max 0 (Max (set (map rowWidth ?rs))) = Max (set (map rowWidth ?rs))" by simp
      then show "Max (insert 0 (set (map rowWidth ?rs))) = Max (set (map rowWidth ?rs))"
        using ne by (simp only: Max_insert [OF finite_set ne])
    qed
    from 1 2 3 4 5 show ?thesis by blast
  qed
  have rows: "splitLines ''ab\<newline>cd'' = [''ab'', ''cd'']" by simp
  have chars: "characters (layoutRow [x, y] im w lh None) =
      [\<lparr>datum_text = x, datum_offsetTop = 0, datum_offsetLeft = 0, datum_size = None, datum_rowSize = None\<rparr>,
       \<lparr>datum_text = y, datum_offsetTop = 0, datum_offsetLeft = advance im x, datum_size = None,
        datum_rowSize = None\<rparr>]" for x y
    by (rule nth_equalityI) (auto simp: layoutRow_fixed less_Suc_eq)
  have example: "transformParagraph aw ''ab\<newline>cd'' im tc lh None fs ff fw w ta td store =
     (let r0 = layoutRow ''ab'' im w lh None;
          r1 = layoutRow ''cd'' im w lh None;
          sizeRef = length store
      in Inr \<lparr>pa_store = store @ [(max (max 0 (rowWidth r0)) (rowWidth r1), rowHeight r0 + rowHeight r1),
                                   (rowWidth r0, rowHeight r0), (rowWidth r1, rowHeight r1)],
              pa_transformedData = td @ map tc
                [\<lparr>datum_text = CHR ''a'', datum_offsetTop = 0, datum_offsetLeft = 0,
                  datum_size = Some sizeRef, datum_rowSize = Some (sizeRef + 1)\<rparr>,
                 \<lparr>datum_text = CHR ''b'', datum_offsetTop = 0, datum_offsetLeft = advance im CHR ''a'',
                  datum_size = Some sizeRef, datum_rowSize = Some (sizeRef + 1)\<rparr>,
                 \<lparr>datum_text = CHR ''c'', datum_offsetTop = rowHeight r0, datum_offsetLeft = 0,
                  datum_size = Some sizeRef, datum_rowSize = Some (sizeRef + 2)\<rparr>,
                 \<lparr>datum_text = CHR ''d'', datum_offsetTop = rowHeight r0, datum_offsetLeft = advance im CHR ''c'',
                  datum_size = Some sizeRef, datum_rowSize = Some (sizeRef + 2)\<rparr>],
              pa_offsetTop = rowHeight r0 + rowHeight r1,
              pa_warnings = warnings r0 @ warnings r1\<rparr>)"
    by (simp only: transformParagraph_eq rows)
       (simp add: truthy_def measured_def Let_def chars)
  from general example show ?thesis by blast
qed

theorem transformParagraph_size_witness:
  "transformParagraph (\<lambda>_ _ _ _ _ _ _ _ _ _. \<lparr>rect_top = 0, rect_left = 0, rect_width = 0, rect_bottom = 0\<rparr>)
       ''ab\<newline>cd''
       [(CHR ''a'', \<lparr>frame_x = 2, frame_y = 2, frame_width = 10, frame_height = 20, frame_mask = True\<rparr>),
        (CHR ''b'', \<lparr>frame_x = 16, frame_y = 2, frame_width = 11, frame_height = 20, frame_mask = True\<rparr>),
        (CHR ''c'', \<lparr>frame_x = 31, frame_y = 2, frame_width = 12, frame_height = 20, frame_mask = True\<rparr>),
        (CHR ''d'', \<lparr>frame_x = 47, frame_y = 2, frame_width = 13, frame_height = 20, frame_mask = True\<rparr>)]
       (\<lambda>d. d) (1::int) None 12 ''Arial'' ''normal'' 100 None [] []
     = Inr \<lparr>pa_store = [(25, 40), (21, 20), (25, 20)],
            pa_transformedData =
              [\<lparr>datum_text = CHR ''a'', datum_offsetTop = 0, datum_offsetLeft = 0,
                datum_size = Some 0, datum_rowSize = Some 1\<rparr>,
               \<lparr>datum_text = CHR ''b'', datum_offsetTop = 0, datum_offsetLeft = 10,
                datum_size = Some 0, datum_rowSize = Some 1\<rparr>,
               \<lparr>datum_text = CHR ''c'', datum_offsetTop = 20, datum_offsetLeft = 0,
                datum_size = Some 0, datum_rowSize = Some 2\<rparr>,
               \<lparr>datum_text = CHR ''d'', datum_offsetTop = 20, datum_offsetLeft = 12,
                datum_size = Some 0, datum_rowSize = Some 2\<rparr>],
            pa_offsetTop = 40, pa_warnings = []\<rparr> \<and>
   map (sizeOf [(25, 40), (21, 20), (25, 20)])
     [\<lparr>datum_text = CHR ''a'', datum_offsetTop = 0, datum_offsetLeft = 0,
                datum_size = Some 0, datum_rowSize = Some 1\<rparr>,
      \<lparr>datum_text = CHR ''d'', datum_offsetTop = 20, datum_offsetLeft = (12::int),
                datum_size = Some 0, datum_rowSize = Some 2\<rparr>]
     = [Some (25, 40), Some (25, 40)]"
proof -
  let ?aw = "\<lambda>_ _ _ _ _ _ _ _ _ _. \<lparr>rect_top = 0, rect_left = 0, rect_width = 0, rect_bottom = 0\<rparr>"
  let ?im = "[(CHR ''a'', \<lparr>frame_x = 2, frame_y = 2, frame_width = 10, frame_height = 20, frame_mask = True\<rparr>),
        (CHR ''b'', \<lparr>frame_x = 16, frame_y = 2, frame_width = 11, frame_height = 20, frame_mask = True\<rparr>),
        (CHR ''c'', \<lparr>frame_x = 31, frame_y = 2, frame_width = 12, frame_height = 20, frame_mask = True\<rparr>),
        (CHR ''d'', \<lparr>frame_x = 47, frame_y = 2, frame_width = 13, frame_height = 20, frame_mask = True\<rparr>)]
        :: int char_mapping"
  let ?res = "\<lparr>pa_store = [(25, 40), (21, 20), (25, 20)],
            pa_transformedData =
              [\<lparr>datum_text = CHR ''a'', datum_offsetTop = 0, datum_offsetLeft = 0,
                datum_size = Some 0, datum_rowSize = Some 1\<rparr>,
               \<lparr>datum_text = CHR ''b'', datum_offsetTop = 0, datum_offsetLeft = 10,
                datum_size = Some 0, datum_rowSize = Some 1\<rparr>,
               \<lparr>datum_text = CHR ''c'', datum_offsetTop = 20, datum_offsetLeft = 0,
                datum_size = Some 0, datum_rowSize = Some 2\<rparr>,
               \<lparr>datum_text = CHR ''d'', datum_offsetTop = 20, datum_offsetLeft = 12,
                datum_size = Some 0, datum_rowSize = Some 2\<rparr>],
            pa_offsetTop = 40, pa_warnings = []\<rparr> :: (int, int datum) para_state"
  have r: "transformParagraph ?aw ''ab\<newline>cd'' ?im (\<lambda>d. d) 1 None 12 ''Arial'' ''normal'' 100 None [] []
             = Inr ?res"
    by code_simp
  have s: "map (sizeOf [(25, 40), (21, 20), (25, 20)])
     [\<lparr>datum_text = CHR ''a'', datum_offsetTop = 0, datum_offsetLeft = 0,
                datum_size = Some 0, datum_rowSize = Some 1\<rparr>,
      \<lparr>datum_text = CHR ''d'', datum_offsetTop = 20, datum_offsetLeft = (12::int),
                datum_size = Some 0, datum_rowSize = Some 2\<rparr>]
     = [Some (25, 40), Some (25, 40)]"
    by (simp add: sizeOf_def)
  from transformParagraph_size
    [where aw = ?aw and ?paragraph = "''ab\<newline>cd''" and im = ?im and tc = "\<lambda>d. d" and lh = 1
       and wb = None and fs = 12 and ff = "''Arial''" and fw = "''normal''" and w = 100 and ta = None
       and td = "[]" and store = "[]" and res = ?res] r s
  show ?thesis by blast
qed

text \<open>
  C9. In fixed-width mode \<^verbatim>\<open>transformRow\<close> returns, and its \<open>rowHeight\<close> is
  \<open>height * lineHeight\<close> for the first character of the row that is in the mapping with
  a non-zero such product; it is 0 when no character of the row is in the mapping, and for
  the empty row. In \<^verbatim>\<open>transformParagraph\<close> the records of row \<open>k\<close> get the sum of the
  heights of the rows before \<open>k\<close> as their \<open>offsetTop\<close>, so a row without a mapped
  character adds nothing to the offset of the rows after it.
\<close>

theorem fixed_width_rowHeight:
  "\<not> truthy wb \<longrightarrow>
     transformRow aw row im w lh wb fs ff fw ta = Inr (layoutRow row im w lh None) \<and>
     (case List.find (\<lambda>c. case map_of im c of None \<Rightarrow> False
                           | Some frame \<Rightarrow> frame_height frame * lh \<noteq> 0) row of
        None \<Rightarrow> rowHeight (layoutRow row im w lh None) = 0
      | Some c \<Rightarrow> \<exists>frame. map_of im c = Some frame \<and>
                    rowHeight (layoutRow row im w lh None) = frame_height frame * lh) \<and>
     ((\<forall>c \<in> set row. map_of im c = None) \<longrightarrow> rowHeight (layoutRow row im w lh None) = 0) \<and>
     rowHeight (layoutRow [] im w lh None) = 0 \<and>
     (\<exists>res. transformParagraph aw paragraph im (\<lambda>d. d) lh wb fs ff fw w ta [] store = Inr res \<and>
        map datum_offsetTop (pa_transformedData res) =
          concat (map (\<lambda>k. replicate (length (splitLines paragraph ! k))
                              (sum_list (map (\<lambda>row. rowHeight (layoutRow row im w lh None))
                                 (take k (splitLines paragraph)))))
                    [0..<length (splitLines paragraph)])) \<and>
     (k < length (splitLines paragraph) \<and> (\<forall>c \<in> set (splitLines paragraph ! k). map_of im c = None) \<longrightarrow>
        sum_list (map (\<lambda>row. rowHeight (layoutRow row im w lh None)) (take (Suc k) (splitLines paragraph))) =
        sum_list (map (\<lambda>row. rowHeight (layoutRow row im w lh None)) (take k (splitLines paragraph))))"
proof
  assume fixed: "\<not> truthy wb"
  let ?P = "\<lambda>c. case map_of im c of None \<Rightarrow> False | Some frame \<Rightarrow> frame_height frame * lh \<noteq> 0"
  let ?H = "\<lambda>row. rowHeight (layoutRow row im w lh None)"
  have 1: "transformRow aw row im w lh wb fs ff fw ta = Inr (layoutRow row im w lh None)"
    using fixed by (simp add: transformRow_eq measured_fixed)
  have 2: "case List.find ?P row of
        None \<Rightarrow> ?H row = 0
      | Some c \<Rightarrow> \<exists>frame. map_of im c = Some frame \<and> ?H row = frame_height frame * lh"
  proof (cases "List.find ?P row")
    case None
    then show ?thesis by (simp add: layoutRow_fixed(2))
  next
    case (Some c)
    then have "?P c" by (auto simp: find_Some_iff)
    then obtain frame where "map_of im c = Some frame" by (cases "map_of im c") auto
    with Some show ?thesis by (simp add: layoutRow_fixed(2))
  qed
  have 3: "(\<forall>c \<in> set row. map_of im c = None) \<longrightarrow> ?H row = 0" for row
  proof
    assume "\<forall>c \<in> set row. map_of im c = None"
    then have "List.find ?P row = None" by (auto simp: find_None_iff)
    then show "?H row = 0" by (simp add: layoutRow_fixed(2))
  qed
  have 4: "?H [] = 0" by (simp add: layoutRow_fixed(2))
  let ?rows = "splitLines paragraph"
  let ?rs = "map (\<lambda>row. layoutRow row im w lh None) ?rows"
  have ret: "transformParagraph aw paragraph im (\<lambda>d. d) lh wb fs ff fw w ta [] store =
      Inr \<lparr>pa_store = store @ [(foldl max 0 (map rowWidth ?rs), sum_list (map rowHeight ?rs))]
                                @ map (\<lambda>r. (rowWidth r, rowHeight r)) ?rs,
           pa_transformedData = [] @ emitRows (\<lambda>d. d) (length store) 0 (Suc (length store)) ?rs,
           pa_offsetTop = sum_list (map rowHeight ?rs),
           pa_warnings = concat (map warnings ?rs)\<rparr>"
    using fixed by (simp add: transformParagraph_eq measured_fixed Let_def)
  have zero: "\<forall>r \<in> set ?rs. \<forall>d \<in> set (characters r). datum_offsetTop d = 0"
    by (auto dest: layoutRow_fixed_offsetTop)
  have "map datum_offsetTop (emitRows (\<lambda>d. d) (length store) 0 (Suc (length store)) ?rs) =
     concat (map (\<lambda>k. replicate (length (characters (?rs ! k))) (0 + sum_list (map rowHeight (take k ?rs))))
               [0..<length ?rs])"
    using zero by (rule emitRows_offsetTop)
  also have "\<dots> = concat (map (\<lambda>k. replicate (length (?rows ! k)) (sum_list (map ?H (take k ?rows))))
                    [0..<length ?rows])"
    by (intro arg_cong [where f = concat] map_cong refl)
       (auto simp: layoutRow_fixed(4) take_map comp_def)
  finally have 5: "\<exists>res. transformParagraph aw paragraph im (\<lambda>d. d) lh wb fs ff fw w ta [] store = Inr res \<and>
        map datum_offsetTop (pa_transformedData res) =
          concat (map (\<lambda>k. replicate (length (?rows ! k)) (sum_list (map ?H (take k ?rows))))
                    [0..<length ?rows])"
    by (simp add: ret)
  have 6: "k < length ?rows \<and> (\<forall>c \<in> set (?rows ! k). map_of im c = None) \<longrightarrow>
        sum_list (map ?H (take (Suc k) ?rows)) = sum_list (map ?H (take k ?rows))"
    using 3 [of "?rows ! k"] by (auto simp: take_Suc_conv_app_nth)
  from 1 2 3 [of row] 4 5 6 show "transformRow aw row im w lh wb fs ff fw ta = Inr (layoutRow row im w lh None) \<and>
     (case List.find ?P row of
        None \<Rightarrow> ?H row = 0
      | Some c \<Rightarrow> \<exists>frame. map_of im c = Some frame \<and> ?H row = frame_height frame * lh) \<and>
     ((\<forall>c \<in> set row. map_of im c = None) \<longrightarrow> ?H row = 0) \<and>
     ?H [] = 0 \<and>
     (\<exists>res. transformParagraph aw paragraph im (\<lambda>d. d) lh wb fs ff fw w ta [] store = Inr res \<and>
        map datum_offsetTop (pa_transformedData res) =
          concat (map (\<lambda>k. replicate (length (?rows ! k)) (sum_list (map ?H (take k ?rows))))
                    [0..<length ?rows])) \<and>
     (k < length ?rows \<and> (\<forall>c \<in> set (?rows ! k). map_of im c = None) \<longrightarrow>
        sum_list (map ?H (take (Suc k) ?rows)) = sum_list (map ?H (take k ?rows)))"
    by blast
qed

theorem fixed_width_rowHeight_witness:
  "\<not> truthy None \<and>
   rowHeight (layoutRow ''z''
       [(CHR ''a'', \<lparr>frame_x = 2, frame_y = 2, frame_width = 10, frame_height = 20, frame_mask = True\<rparr>),
        (CHR ''b'', \<lparr>frame_x = 16, frame_y = 2, frame_width = 11, frame_height = 20, frame_mask = True\<rparr>)]
       100 (1::int) None) = 0 \<and>
   rowHeight (layoutRow ''zb''
       [(CHR ''a'', \<lparr>frame_x = 2, frame_y = 2, frame_width = 10, frame_height = 20, frame_mask = True\<rparr>),
        (CHR ''b'', \<lparr>frame_x = 16, frame_y = 2, frame_width = 11, frame_height = 20, frame_mask = True\<rparr>)]
       100 (3::int) None) = 60 \<and>
   transformParagraph (\<lambda>_ _ _ _ _ _ _ _ _ _. \<lparr>rect_top = 0, rect_left = 0, rect_width = 0, rect_bottom = 0\<rparr>)
       ''a\<newline>\<newline>z\<newline>b''
       [(CHR ''a'', \<lparr>frame_x = 2, frame_y = 2, frame_width = 10, frame_height = 20, frame_mask = True\<rparr>),
        (CHR ''b'', \<lparr>frame_x = 16, frame_y = 2, frame_width = 11, frame_height = 20, frame_mask = True\<rparr>)]
       (\<lambda>d. d) (1::int) None 12 ''Arial'' ''normal'' 100 None [] []
     = Inr \<lparr>pa_store = [(32, 40), (10, 20), (0, 0), (32, 0), (11, 20)],
            pa_transformedData =
              [\<lparr>datum_text = CHR ''a'', datum_offsetTop = 0, datum_offsetLeft = 0,
                datum_size = Some 0, datum_rowSize = Some 1\<rparr>,
               \<lparr>datum_text = CHR ''z'', datum_offsetTop = 20, datum_offsetLeft = 0,
                datum_size = Some 0, datum_rowSize = Some 3\<rparr>,
               \<lparr>datum_text = CHR ''b'', datum_offsetTop = 20, datum_offsetLeft = 0,
                datum_size = Some 0, datum_rowSize = Some 4\<rparr>],
            pa_offsetTop = 40, pa_warnings = [''Missing character: z'']\<rparr>"
proof -
  let ?aw = "\<lambda>_ _ _ _ _ _ _ _ _ _. \<lparr>rect_top = 0, rect_left = 0, rect_width = 0, rect_bottom = 0\<rparr>"
  let ?im = "[(CHR ''a'', \<lparr>frame_x = 2, frame_y = 2, frame_width = 10, frame_height = 20, frame_mask = True\<rparr>),
        (CHR ''b'', \<lparr>frame_x = 16, frame_y = 2, frame_width = 11, frame_height = 20, frame_mask = True\<rparr>)]
        :: int char_mapping"
  have h: "\<not> truthy None" by (simp add: truthy_def)
  have c: "rowHeight (layoutRow ''z'' ?im 100 (1::int) None) = 0 \<and>
           rowHeight (layoutRow ''zb'' ?im 100 (3::int) None) = 60"
    by code_simp
  have r: "transformParagraph ?aw ''a\<newline>\<newline>z\<newline>b'' ?im (\<lambda>d. d) (1::int) None 12 ''Arial'' ''normal'' 100 None [] []
     = Inr \<lparr>pa_store = [(32, 40), (10, 20), (0, 0), (32, 0), (11, 20)],
            pa_transformedData =
              [\<lparr>datum_text = CHR ''a'', datum_offsetTop = 0, datum_offsetLeft = 0,
                datum_size = Some 0, datum_rowSize = Some 1\<rparr>,
               \<lparr>datum_text = CHR ''z'', datum_offsetTop = 20, datum_offsetLeft = 0,
                datum_size = Some 0, datum_rowSize = Some 3\<rparr>,
               \<lparr>datum_text = CHR ''b'', datum_offsetTop = 20, datum_offsetLeft = 0,
                datum_size = Some 0, datum_rowSize = Some 4\<rparr>],
            pa_offsetTop = 40, pa_warnings = [''Missing character: z'']\<rparr>"
    by code_simp
  from fixed_width_rowHeight
    [where wb = None and aw = ?aw and row = "''z''" and im = ?im and w = 100 and lh = 1 and fs = 12
       and ff = "''Arial''" and fw = "''normal''" and ta = None
       and ?paragraph = "''a\<newline>\<newline>z\<newline>b''" and store = "[]" and k = 1] h c r
  show ?thesis by blast
qed

end
